theory Spec2Isabelle
  imports Main "HOL-Library.AList"
begin

chapter \<open>The WebRTC client of \<^verbatim>\<open>src/web-rtc-client.js\<close>\<close>

text \<open>
  A shallow embedding of the class \<^verbatim>\<open>WebRTCClient\<close>. JavaScript objects become records,
  \<^verbatim>\<open>undefined\<close>/\<^verbatim>\<open>null\<close> become \<open>None\<close>, a thrown exception becomes the left summand
  of a result, and the fields of \<^verbatim>\<open>this\<close> that a method mutates are threaded through as an
  explicit state. What the class hands to its collaborators (the SIP session, the peer
  connection, the console, timers, callbacks) is recorded in logs that the state carries,
  in call order.
\<close>

section \<open>JavaScript values\<close>

text \<open>Truthiness of a string-or-undefined value: \<^verbatim>\<open>undefined\<close> and \<^verbatim>\<open>''\<close> are falsy.\<close>

definition truthy :: "string option \<Rightarrow> bool" where
  "truthy v = (case v of None \<Rightarrow> False | Some s \<Rightarrow> s \<noteq> [])"

text \<open>\<^verbatim>\<open>a || b\<close> on string-or-undefined values.\<close>

definition js_or :: "string option \<Rightarrow> string option \<Rightarrow> string option" where
  "js_or a b = (if truthy a then a else b)"

text \<open>
  Exceptions: a \<^verbatim>\<open>TypeError\<close> of the language itself (a property read or a call on
  \<^verbatim>\<open>undefined\<close>/\<^verbatim>\<open>null\<close>), or an exception thrown by a method of the SIP library.
\<close>

datatype error = TypeError | LibraryError

section \<open>Regular expressions\<close>

text \<open>
  The fragment of JavaScript regular expressions that the file uses: literal characters,
  character ranges, sequence, alternation and \<^verbatim>\<open>.*\<close>. \<open>rests r s\<close> lists what is left of
  \<open>s\<close> after each way of matching \<open>r\<close> at its start, in the order a backtracking matcher
  tries them (\<^verbatim>\<open>.*\<close> is greedy but every shorter match is an alternative).
\<close>

datatype rx =
    Eps
  | Chr char
  | Range char char
  | Seq rx rx
  | Alt rx rx
  | AnyStar

definition line_terminator :: "char \<Rightarrow> bool" where
  "line_terminator c = (c = CHR 0x0A \<or> c = CHR 0x0D)"

fun any_star :: "string \<Rightarrow> string list" where
  "any_star [] = [[]]"
| "any_star (c # s) = (if line_terminator c then [c # s] else any_star s @ [c # s])"

fun rests :: "rx \<Rightarrow> string \<Rightarrow> string list" where
  "rests Eps s = [s]"
| "rests (Chr c) s = (case s of [] \<Rightarrow> [] | x # xs \<Rightarrow> if x = c then [xs] else [])"
| "rests (Range lo hi) s =
     (case s of [] \<Rightarrow> []
      | x # xs \<Rightarrow>
          if (of_char lo :: nat) \<le> of_char x \<and> (of_char x :: nat) \<le> of_char hi then [xs] else [])"
| "rests (Seq r1 r2) s = concat (map (rests r2) (rests r1 s))"
| "rests (Alt r1 r2) s = rests r1 s @ rests r2 s"
| "rests AnyStar s = any_star s"

text \<open>A literal word, character by character.\<close>

fun lit :: "string \<Rightarrow> rx" where
  "lit [] = Eps"
| "lit (c # cs) = Seq (Chr c) (lit cs)"

text \<open>\<^verbatim>\<open>regex.exec(s) == null\<close> for a pattern anchored with \<^verbatim>\<open>^\<close>: no way to match at the start.\<close>

definition exec_is_null :: "rx \<Rightarrow> string \<Rightarrow> bool" where
  "exec_is_null r s = (rests r s = [])"

text \<open>\<^verbatim>\<open>regex.test(s)\<close> for an unanchored pattern: a match at some position of \<open>s\<close>.\<close>

fun test_unanchored :: "rx \<Rightarrow> string \<Rightarrow> bool" where
  "test_unanchored r [] = (rests r [] \<noteq> [])"
| "test_unanchored r (c # s) = (rests r (c # s) \<noteq> [] \<or> test_unanchored r s)"

section \<open>ICE servers\<close>

text \<open>
  \<^verbatim>\<open>/^(?:10|127|172\.(?:1[6-9]|2[0-9]|3[01])|192\.168)\..*/\<close>
\<close>

definition private_ip_regex :: rx where
  "private_ip_regex =
     Seq (Alt (lit ''10'')
         (Alt (lit ''127'')
         (Alt (Seq (lit ''172.'')
                   (Alt (Seq (Chr CHR ''1'') (Range CHR ''6'' CHR ''9''))
                   (Alt (Seq (Chr CHR ''2'') (Range CHR ''0'' CHR ''9''))
                        (Seq (Chr CHR ''3'') (Range CHR ''0'' CHR ''1'')))))
              (lit ''192.168''))))
         (Seq (Chr CHR ''.'') AnyStar)"

text \<open>
  \<^verbatim>\<open>static isAPrivateIp(ip) { ...; return regex.exec(ip) == null; }\<close>:
  true when the pattern does \<^emph>\<open>not\<close> match.
\<close>

definition isAPrivateIp :: "string \<Rightarrow> bool" where
  "isAPrivateIp ip = exec_is_null private_ip_regex ip"

record iceServer =
  urls :: "string list"

definition getIceServers :: "string \<Rightarrow> iceServer list" where
  "getIceServers ip =
     (if isAPrivateIp ip
      then [\<lparr>urls = [''stun:stun.l.google.com:19302'', ''stun:stun4.l.google.com:19302'']\<rparr>]
      else [])"

text \<open>
  The spec's side of the comparison: an IPv4 address \<open>a.b.c.d\<close> is private (or loopback) when
  it lies in 10.0.0.0/8, 127.0.0.0/8, 172.16.0.0/12 or 192.168.0.0/16. \<open>dec\<close> writes a number
  in decimal and \<open>dotted\<close> an address in the usual dotted form.
\<close>

definition private_range :: "nat \<Rightarrow> nat \<Rightarrow> bool" where
  "private_range a b =
     (a = 10 \<or> a = 127 \<or> (a = 172 \<and> 16 \<le> b \<and> b \<le> 31) \<or> (a = 192 \<and> b = 168))"

definition digit :: "nat \<Rightarrow> char" where
  "digit n = char_of (48 + n)"

fun dec :: "nat \<Rightarrow> string" where
  "dec n = (if n < 10 then [digit n] else dec (n div 10) @ [digit (n mod 10)])"

definition dotted :: "nat \<Rightarrow> nat \<Rightarrow> nat \<Rightarrow> nat \<Rightarrow> string" where
  "dotted a b c d = dec a @ ''.'' @ dec b @ ''.'' @ dec c @ ''.'' @ dec d"

text \<open>
  On an arbitrary host string the pattern can only look at the spelling. In words: the
  host begins with one of the following prefixes.
\<close>

definition private_prefixes :: "string list" where
  "private_prefixes =
     [''10.'', ''127.'',
      ''172.16.'', ''172.17.'', ''172.18.'', ''172.19.'',
      ''172.20.'', ''172.21.'', ''172.22.'', ''172.23.'', ''172.24.'',
      ''172.25.'', ''172.26.'', ''172.27.'', ''172.28.'', ''172.29.'',
      ''172.30.'', ''172.31.'',
      ''192.168.'']"

definition starts_with :: "string \<Rightarrow> string \<Rightarrow> bool" where
  "starts_with p s = (take (length p) s = p)"

definition has_private_prefix :: "string \<Rightarrow> bool" where
  "has_private_prefix host = list_ex (\<lambda>p. starts_with p host) private_prefixes"

text \<open>
  The part of \<^verbatim>\<open>_createWebRTCConfiguration\<close> that builds the peer connection's
  \<^verbatim>\<open>rtcConfiguration\<close>; the spread of \<^verbatim>\<open>_getRtcOptions\<close> adds the key \<^verbatim>\<open>mandatory\<close> only.
\<close>

record rtcConfiguration =
  rtcpMuxPolicy :: string
  bundlePolicy :: string
  iceServers :: "iceServer list"
  offerToReceiveAudio :: bool
  offerToReceiveVideo :: bool

definition createRtcConfiguration :: "string \<Rightarrow> bool \<Rightarrow> bool \<Rightarrow> rtcConfiguration" where
  "createRtcConfiguration host has_audio video_enabled =
     \<lparr>rtcpMuxPolicy = ''require'', bundlePolicy = ''max-compat'',
      iceServers = getIceServers host,
      offerToReceiveAudio = has_audio, offerToReceiveVideo = video_enabled\<rparr>"

section \<open>The registration retry loop\<close>

definition MAX_REGISTER_TRY :: nat where
  "MAX_REGISTER_TRY = 200"

text \<open>
  The registration fields of the client, together with what the loop does to its
  environment: \<open>timers\<close> are the pending timers (handle and delay in milliseconds),
  \<open>nextHandle\<close> the handle the next \<^verbatim>\<open>setTimeout\<close> returns, \<open>delays\<close> every delay ever
  passed to \<^verbatim>\<open>setTimeout\<close>, \<open>cbCalls\<close> the argument of every call of the completion
  callback, \<open>attempts\<close> the register requests sent.
\<close>

record registration =
  registerTries :: nat
  registered :: bool
  registering :: bool
  registerTimeout :: "nat option"
  timers :: "(nat \<times> nat) list"
  nextHandle :: nat
  delays :: "nat list"
  cbCalls :: "bool list"
  attempts :: nat

text \<open>The constructor's values; timer handles are positive, as in a browser.\<close>

definition initial :: registration where
  "initial = \<lparr>registerTries = 0, registered = False, registering = False,
     registerTimeout = None, timers = [], nextHandle = 1, delays = [], cbCalls = [],
     attempts = 0\<rparr>"

text \<open>\<^verbatim>\<open>this.registerTimeout = setTimeout(..., delay)\<close>\<close>

definition setRegisterTimeout :: "nat \<Rightarrow> registration \<Rightarrow> registration" where
  "setRegisterTimeout delay s =
     s\<lparr>registerTimeout := Some (nextHandle s),
       timers := timers s @ [(nextHandle s, delay)],
       nextHandle := Suc (nextHandle s),
       delays := delays s @ [delay]\<rparr>"

definition clearTimeout :: "nat \<Rightarrow> registration \<Rightarrow> registration" where
  "clearTimeout h s = s\<lparr>timers := filter (\<lambda>t. fst t \<noteq> h) (timers s)\<rparr>"

text \<open>
  \<^verbatim>\<open>_tryToRegister(cb)\<close>, up to the point where it returns: either the loop ends (the
  callback is called and \<^verbatim>\<open>registering\<close> cleared) or the next attempt is scheduled.
  A handle is truthy unless it is 0.
\<close>

definition tryToRegister :: "registration \<Rightarrow> registration" where
  "tryToRegister s =
     (if registered s \<or> MAX_REGISTER_TRY \<le> registerTries s then
        let s1 = (case registerTimeout s of
                    Some h \<Rightarrow> if h \<noteq> 0 then clearTimeout h s else s
                  | None \<Rightarrow> s);
            s2 = s1\<lparr>cbCalls := cbCalls s1 @ [MAX_REGISTER_TRY \<le> registerTries s1]\<rparr>
        in s2\<lparr>registering := False\<rparr>
      else setRegisterTimeout (1500 * registerTries s) s)"

text \<open>
  The timer's callback: a fresh user agent replaces the old one (a fresh agent is not
  registered, so \<^verbatim>\<open>register()\<close> sends a request), the counter goes up, and
  \<^verbatim>\<open>_tryToRegister\<close> runs again.
\<close>

definition onTimer :: "registration \<Rightarrow> registration" where
  "onTimer s = tryToRegister (s\<lparr>attempts := Suc (attempts s), registerTries := Suc (registerTries s)\<rparr>)"

definition reinit :: "registration \<Rightarrow> registration" where
  "reinit s =
     (if registering s then s
      else tryToRegister (s\<lparr>registering := True, registerTries := 0, registered := False\<rparr>))"

text \<open>
  What can happen to the client between two of its own steps: the application calls
  \<^verbatim>\<open>reinit()\<close> or \<^verbatim>\<open>unregister()\<close>, the \<open>i\<close>-th pending timer fires, the user agent
  reports \<^verbatim>\<open>registered\<close>, or the transport reports \<^verbatim>\<open>disconnected\<close> (the agent's
  \<^verbatim>\<open>unregistered\<close> runs the same handler, \<^verbatim>\<open>onDisconnected\<close>). \<open>TimerThrows\<close> is a timer
  whose callback throws while it builds the new user agent, before it touches the
  counter.
\<close>

datatype event =
  Reinit | Unregister | TimerFires nat | TimerThrows nat | Registered | Disconnected

fun step :: "event \<Rightarrow> registration \<Rightarrow> registration" where
  "step Reinit s = reinit s"
| "step Unregister s = s\<lparr>registered := False\<rparr>"
| "step (TimerFires i) s =
     (if i < length (timers s)
      then onTimer (s\<lparr>timers := take i (timers s) @ drop (Suc i) (timers s)\<rparr>)
      else s)"
| "step (TimerThrows i) s =
     (if i < length (timers s)
      then s\<lparr>timers := take i (timers s) @ drop (Suc i) (timers s)\<rparr>
      else s)"
| "step Registered s = s\<lparr>registered := True\<rparr>"
| "step Disconnected s = reinit (s\<lparr>registered := False\<rparr>)"

fun run :: "event list \<Rightarrow> registration \<Rightarrow> registration" where
  "run [] s = s"
| "run (e # es) s = run es (step e s)"

text \<open>
  The state of a loop started by \<^verbatim>\<open>reinit()\<close> on a new client after \<open>k\<close> attempts that
  all failed, and the state in which such a loop ends.
\<close>

definition waiting :: "nat \<Rightarrow> registration" where
  "waiting k = \<lparr>registerTries = k, registered = False, registering = True,
     registerTimeout = Some (Suc k), timers = [(Suc k, 1500 * k)], nextHandle = Suc (Suc k),
     delays = map (\<lambda>j. 1500 * j) [0 ..< Suc k], cbCalls = [], attempts = k\<rparr>"

definition exhausted :: registration where
  "exhausted = \<lparr>registerTries = MAX_REGISTER_TRY, registered = False, registering = False,
     registerTimeout = Some MAX_REGISTER_TRY, timers = [], nextHandle = Suc MAX_REGISTER_TRY,
     delays = map (\<lambda>j. 1500 * j) [0 ..< MAX_REGISTER_TRY], cbCalls = [True],
     attempts = MAX_REGISTER_TRY\<rparr>"

text \<open>
  The invariant of the loop: while \<^verbatim>\<open>registering\<close> is set at most one timer is pending,
  and none otherwise.
\<close>

definition reg_inv :: "registration \<Rightarrow> bool" where
  "reg_inv s = (if registering s then length (timers s) \<le> 1 else timers s = [])"

section \<open>Sessions, peer connections and the client's media state\<close>

datatype kind = Audio | Video

text \<open>
  A track is an object shared between senders and streams: the record describes it, and
  its mutable \<^verbatim>\<open>enabled\<close> flag lives in the client state under its \<open>trackId\<close>.
\<close>

record mediaTrack =
  trackId :: nat
  kind :: kind

type_synonym mediaStream = "mediaTrack list"

text \<open>
  The peer connection as the client reads it. \<open>getSenders\<close> and \<open>getReceivers\<close> are
  \<open>None\<close> where the browser lacks the method, and otherwise list each sender's
  (receiver's) track, \<open>None\<close> for a \<^verbatim>\<open>null\<close> track.
\<close>

record peerConnection =
  getSenders :: "mediaTrack option list option"
  getReceivers :: "mediaTrack option list option"
  getLocalStreams :: "mediaStream list"
  getRemoteStreams :: "mediaStream list"
  signalingState :: string
  iceConnectionState :: string

text \<open>The inbound request: \<open>headers\<close> lists name and value of each header it carries.\<close>

record sipRequest =
  callId :: "string option"
  body :: string
  headers :: "(string \<times> string) list"

definition getHeader :: "sipRequest \<Rightarrow> string \<Rightarrow> string option" where
  "getHeader rq name = map_of (headers rq) name"

text \<open>
  \<^verbatim>\<open>SessionStatus\<close> of the SIP library, in the order of its numeric values 0 to 12; the
  source's comments give 2, 4, 8 and 9.
\<close>

datatype sessionStatus =
    STATUS_NULL
  | STATUS_INVITE_SENT
  | STATUS_1XX_RECEIVED
  | STATUS_INVITE_RECEIVED
  | STATUS_WAITING_FOR_ANSWER
  | STATUS_ANSWERED
  | STATUS_WAITING_FOR_PRACK
  | STATUS_WAITING_FOR_ACK
  | STATUS_CANCELED
  | STATUS_TERMINATED
  | STATUS_ANSWERED_WAITING_FOR_PRACK
  | STATUS_EARLY_MEDIA
  | STATUS_CONFIRMED

text \<open>
  A method of the session is \<open>None\<close> when the property is undefined; otherwise it says
  whether a call returns or throws. \<open>sessionDescriptionHandler\<close> is \<open>None\<close> when the
  session has no handler yet and \<open>Some None\<close> when the handler has no peer connection.
\<close>

datatype outcome = Returns | Throws

datatype meth = Cancel | Reject | Bye | Stop | Hold | Unhold

record sipSession =
  request :: "sipRequest option"
  ident :: "string option"
  sessionDescriptionHandler :: "peerConnection option option"
  status :: sessionStatus
  cancel :: "outcome option"
  reject :: "outcome option"
  bye :: "outcome option"
  stop :: "outcome option"
  sessionHold :: "outcome option"
  sessionUnhold :: "outcome option"
  isCanceled :: bool
  canceled :: bool
  hasAnswer :: bool
  localHold :: bool

record mergeEntry =
  localAudioSource :: "nat option"
  remoteAudioSource :: "nat option"

record videoEntry =
  localVideo :: "mediaStream option"
  remotes :: "mediaStream list"

record audioElement =
  parentNode :: bool

text \<open>
  What is still to run after a method returns: the callback of a promise
  (\<^verbatim>\<open>createOffer(...).then(...)\<close>) or of a one-time listener (\<^verbatim>\<open>sdh.once('addTrack', ...)\<close>);
  \<open>NullResult\<close> is the \<^verbatim>\<open>null\<close> that \<^verbatim>\<open>removeFromMerge\<close> returns instead of a promise.
\<close>

datatype task =
    BindThen sipSession "nat option" "nat option"
  | AwaitAddTrack sipSession
  | RemoveThen sipSession bool
  | NullResult

datatype streamRef = StreamOf mediaStream | DestinationStream nat | UndefinedStream

datatype effect =
    ConsoleWarn
  | Invoke string meth
  | RemoveStream string streamRef
  | AddStream string streamRef
  | CreateOffer string
  | SetLocalDescription string
  | ResumeContext

datatype emission = InviteEmitted string bool bool

text \<open>
  The client. \<open>isWeb\<close> is \<^verbatim>\<open>_isWeb()\<close> and \<open>firefox\<close> whether the navigator's user agent
  names Firefox; \<open>audioContext\<close> tells whether the field is non-null. Audio nodes are
  numbered in creation order from \<open>nextNode\<close>; \<open>connections\<close> holds the pairs (source
  node, destination node) of the audio graph. \<open>audioStreams\<close> holds the own keys of the
  object \<^verbatim>\<open>this.audioStreams\<close> with their values and \<open>audioStreamsProto\<close> the object's
  prototype (see below); \<open>videoSessions\<close> and \<open>audioElements\<close> hold the own keys of
  their objects. \<open>floating\<close> lists the promise callbacks registered so far, \<open>effects\<close>
  the calls made on collaborators, \<open>emitted\<close> the events handed to subscribers.
\<close>

record client =
  hasAudio :: bool
  isWeb :: bool
  firefox :: bool
  videoEnabled :: bool
  audioContext :: bool
  contextSuspended :: bool
  mergeDestination :: "nat option"
  audioStreams :: "(string \<times> mergeEntry) list"
  audioStreamsProto :: "mergeEntry option"
  videoSessions :: "string \<rightharpoonup> videoEntry"
  audioElements :: "string \<rightharpoonup> audioElement"
  enabled :: "nat \<Rightarrow> bool"
  connections :: "(nat \<times> nat) set"
  nextNode :: nat
  floating :: "task list"
  effects :: "effect list"
  emitted :: "emission list"

subsection \<open>Methods as state transformers that may throw\<close>

text \<open>
  A method of the client takes the client's state and returns a value or an exception,
  together with the state it leaves; an exception keeps the mutations made before it.
  The exceptions modelled are those of the language (\<^verbatim>\<open>TypeError\<close>) and those of the
  session's own methods. Calls into the browser (audio nodes, the peer connection, DOM
  elements, the console) return normally and are recorded in \<open>effects\<close> where a claim
  speaks of them; a promise returned by \<^verbatim>\<open>createOffer\<close> resolves. The source's names
  are kept, without the leading underscore of the private methods.
\<close>

type_synonym 'a action = "client \<Rightarrow> (error + 'a) \<times> client"

definition ok :: "'a \<Rightarrow> 'a action" where
  "ok v w = (Inr v, w)"

definition throw :: "error \<Rightarrow> 'a action" where
  "throw e w = (Inl e, w)"

definition andThen :: "'a action \<Rightarrow> ('a \<Rightarrow> 'b action) \<Rightarrow> 'b action" where
  "andThen m f w = (case m w of (Inl e, w') \<Rightarrow> (Inl e, w') | (Inr v, w') \<Rightarrow> f v w')"

definition perform :: "effect \<Rightarrow> unit action" where
  "perform e w = (Inr (), w\<lparr>effects := effects w @ [e]\<rparr>)"

definition promise :: "task \<Rightarrow> task action" where
  "promise t w = (Inr t, w\<lparr>floating := floating w @ [t]\<rparr>)"

text \<open>Calling a method of the session \<open>sid\<close>: undefined is not a function.\<close>

definition invoke :: "string \<Rightarrow> meth \<Rightarrow> outcome option \<Rightarrow> unit action" where
  "invoke sid m impl =
     (case impl of
        None \<Rightarrow> throw TypeError
      | Some Returns \<Rightarrow> perform (Invoke sid m)
      | Some Throws \<Rightarrow> andThen (perform (Invoke sid m)) (\<lambda>_. throw LibraryError))"

fun mapA :: "('a \<Rightarrow> 'b action) \<Rightarrow> 'a list \<Rightarrow> 'b list action" where
  "mapA f [] = ok []"
| "mapA f (x # xs) = andThen (f x) (\<lambda>y. andThen (mapA f xs) (\<lambda>ys. ok (y # ys)))"

subsection \<open>Session identity\<close>

text \<open>
  \<^verbatim>\<open>(sipSession && sipSession.request && sipSession.request.callId) || (sipSession && sipSession.id) || ''\<close>
\<close>

definition getSipSessionId :: "sipSession option \<Rightarrow> string" where
  "getSipSessionId sipSession =
     (case sipSession of
        None \<Rightarrow> []
      | Some x \<Rightarrow>
          (case js_or (case request x of None \<Rightarrow> None | Some rq \<Rightarrow> callId rq) (ident x) of
             None \<Rightarrow> []
           | Some v \<Rightarrow> v))"

subsection \<open>The table of merged sessions\<close>

text \<open>
  \<^verbatim>\<open>this.audioStreams\<close> is a plain object, created as \<^verbatim>\<open>{}\<close> by \<^verbatim>\<open>configureMedia\<close> and used
  as a table from session identifiers to entries \<^verbatim>\<open>{ localAudioSource, remoteAudioSource }\<close>.
  Its keys therefore share a name space with the properties the object inherits. The
  prototype is \<^verbatim>\<open>Object.prototype\<close> (\<open>audioStreamsProto\<close> is \<open>None\<close>) until an entry is
  assigned under the key \<^verbatim>\<open>__proto__\<close>: that assignment runs the setter inherited from
  \<^verbatim>\<open>Object.prototype\<close>, which makes the entry the prototype of the table
  (\<open>audioStreamsProto\<close> is \<open>Some\<close> of the entry) and creates no key.

  \<open>objectPrototypeNames\<close> lists the properties of \<^verbatim>\<open>Object.prototype\<close>; all are
  functions, except the accessor \<^verbatim>\<open>__proto__\<close>, whose getter returns the prototype of the
  object it is read on.
\<close>

definition objectPrototypeNames :: "string list" where
  "objectPrototypeNames =
     [''constructor'', ''__defineGetter__'', ''__defineSetter__'', ''hasOwnProperty'',
      ''__lookupGetter__'', ''__lookupSetter__'', ''isPrototypeOf'', ''propertyIsEnumerable'',
      ''toString'', ''valueOf'', ''__proto__'', ''toLocaleString'']"

text \<open>
  What \<^verbatim>\<open>this.audioStreams[k]\<close> evaluates to: \<^verbatim>\<open>undefined\<close>, \<^verbatim>\<open>null\<close>, an entry, or another
  object (a function of \<^verbatim>\<open>Object.prototype\<close>, \<^verbatim>\<open>Object.prototype\<close> itself, or an audio node),
  which has neither a property \<^verbatim>\<open>localAudioSource\<close> nor a property \<^verbatim>\<open>remoteAudioSource\<close>.
\<close>

datatype property = Undefined | Null | Entry mergeEntry | OtherObject

text \<open>
  \<^verbatim>\<open>this.audioStreams[k]\<close>: the own key \<open>k\<close> if there is one, and otherwise what the
  prototype chain gives. An entry that is the prototype is found under its own two
  properties (a source node, or \<^verbatim>\<open>null\<close>), is itself what the getter of \<^verbatim>\<open>__proto__\<close>
  returns, and inherits the rest from \<^verbatim>\<open>Object.prototype\<close>.
\<close>

definition getAudioStream :: "client \<Rightarrow> string \<Rightarrow> property" where
  "getAudioStream w k =
     (case map_of (audioStreams w) k of
        Some e \<Rightarrow> Entry e
      | None \<Rightarrow>
          (case audioStreamsProto w of
             Some p \<Rightarrow>
               if k = ''localAudioSource''
               then (case localAudioSource p of Some _ \<Rightarrow> OtherObject | None \<Rightarrow> Null)
               else if k = ''remoteAudioSource''
               then (case remoteAudioSource p of Some _ \<Rightarrow> OtherObject | None \<Rightarrow> Null)
               else if k = ''__proto__'' then Entry p
               else if k \<in> set objectPrototypeNames then OtherObject
               else Undefined
           | None \<Rightarrow> if k \<in> set objectPrototypeNames then OtherObject else Undefined))"

text \<open>\<^verbatim>\<open>k in this.audioStreams\<close>: an own key or an inherited property.\<close>

definition inAudioStreams :: "string \<Rightarrow> client \<Rightarrow> bool" where
  "inAudioStreams k w =
     (k \<in> fst ` set (audioStreams w) \<or>
      (case audioStreamsProto w of
         Some _ \<Rightarrow> k = ''localAudioSource'' \<or> k = ''remoteAudioSource''
       | None \<Rightarrow> False) \<or>
      k \<in> set objectPrototypeNames)"

text \<open>
  \<^verbatim>\<open>this.audioStreams[k] = e\<close>: for the key \<^verbatim>\<open>__proto__\<close> (unless the table has an own
  property of that name, which no assignment creates) the inherited setter replaces the
  prototype; every other key becomes or stays an own key.
\<close>

definition setAudioStream :: "string \<Rightarrow> mergeEntry \<Rightarrow> client \<Rightarrow> client" where
  "setAudioStream k e w =
     (if k = ''__proto__'' \<and> k \<notin> fst ` set (audioStreams w)
      then w\<lparr>audioStreamsProto := Some e\<rparr>
      else w\<lparr>audioStreams := AList.update k e (audioStreams w)\<rparr>)"

text \<open>\<^verbatim>\<open>delete this.audioStreams[k]\<close> removes an own key and nothing else.\<close>

definition deleteAudioStream :: "string \<Rightarrow> client \<Rightarrow> client" where
  "deleteAudioStream k w = w\<lparr>audioStreams := AList.delete k (audioStreams w)\<rparr>"

text \<open>
  \<^verbatim>\<open>const { localAudioSource, remoteAudioSource } = v\<close> throws on \<^verbatim>\<open>undefined\<close> and \<^verbatim>\<open>null\<close>
  (the result is \<open>None\<close>) and otherwise reads the two properties, which are undefined on an
  object that is no entry. In an entry, \<open>None\<close> stands for \<^verbatim>\<open>null\<close> as for \<^verbatim>\<open>undefined\<close>:
  both are falsy and neither has a method \<^verbatim>\<open>disconnect\<close>.
\<close>

definition destructure :: "property \<Rightarrow> mergeEntry option" where
  "destructure v =
     (case v of
        Undefined \<Rightarrow> None
      | Null \<Rightarrow> None
      | Entry e \<Rightarrow> Some e
      | OtherObject \<Rightarrow> Some \<lparr>localAudioSource = None, remoteAudioSource = None\<rparr>)"

subsection \<open>Muting tracks\<close>

text \<open>\<^verbatim>\<open>track.enabled = v\<close>\<close>

definition setEnabled :: "bool \<Rightarrow> client \<Rightarrow> mediaTrack \<Rightarrow> client" where
  "setEnabled v w t = w\<lparr>enabled := (enabled w)(trackId t := v)\<rparr>"

text \<open>The senders' tracks that are non-null and of the given kind, in sender order.\<close>

definition senderTracks :: "kind \<Rightarrow> mediaTrack option list \<Rightarrow> mediaTrack list" where
  "senderTracks k senders =
     concat (map (\<lambda>sender. case sender of
                              None \<Rightarrow> []
                            | Some t \<Rightarrow> if kind t = k then [t] else []) senders)"

definition getAudioTracks :: "mediaStream \<Rightarrow> mediaTrack list" where
  "getAudioTracks stream = filter (\<lambda>t. kind t = Audio) stream"

definition getVideoTracks :: "mediaStream \<Rightarrow> mediaTrack list" where
  "getVideoTracks stream = filter (\<lambda>t. kind t = Video) stream"

text \<open>
  \<^verbatim>\<open>_toggleAudio(session, muteAudio)\<close> returns early when the session has no handler or
  no peer connection.
\<close>

definition toggleAudio :: "sipSession \<Rightarrow> bool \<Rightarrow> unit action" where
  "toggleAudio session muteAudio w =
     (case sessionDescriptionHandler session of
        None \<Rightarrow> ok () w
      | Some None \<Rightarrow> ok () w
      | Some (Some pc) \<Rightarrow>
          (case getSenders pc of
             Some senders \<Rightarrow>
               ok () (foldl (setEnabled (\<not> muteAudio)) w (senderTracks Audio senders))
           | None \<Rightarrow>
               ok () (foldl (setEnabled (\<not> muteAudio)) w
                        (concat (map getAudioTracks (getLocalStreams pc))))))"

text \<open>
  \<^verbatim>\<open>_toggleVideo(session, muteCamera)\<close> reads \<^verbatim>\<open>session.sessionDescriptionHandler.peerConnection\<close>
  and then \<^verbatim>\<open>pc.getSenders\<close> with no guard.
\<close>

definition toggleVideo :: "sipSession \<Rightarrow> bool \<Rightarrow> unit action" where
  "toggleVideo session muteCamera w =
     (case sessionDescriptionHandler session of
        None \<Rightarrow> throw TypeError w
      | Some None \<Rightarrow> throw TypeError w
      | Some (Some pc) \<Rightarrow>
          (case getSenders pc of
             Some senders \<Rightarrow>
               ok () (foldl (setEnabled (\<not> muteCamera)) w (senderTracks Video senders))
           | None \<Rightarrow>
               ok () (foldl (setEnabled (\<not> muteCamera)) w
                        (concat (map getVideoTracks (getLocalStreams pc))))))"

definition mute :: "sipSession \<Rightarrow> unit action" where
  "mute session = toggleAudio session True"

definition unmute :: "sipSession \<Rightarrow> unit action" where
  "unmute session = toggleAudio session False"

definition toggleCameraOn :: "sipSession \<Rightarrow> unit action" where
  "toggleCameraOn session = toggleVideo session False"

definition toggleCameraOff :: "sipSession \<Rightarrow> unit action" where
  "toggleCameraOff session = toggleVideo session True"

text \<open>\<^verbatim>\<open>hold\<close> and \<^verbatim>\<open>unhold\<close>: mute or unmute, then the session's own renegotiation.\<close>

definition hold :: "sipSession \<Rightarrow> unit action" where
  "hold session =
     andThen (mute session)
       (\<lambda>_. invoke (getSipSessionId (Some session)) Hold (sessionHold session))"

definition unhold :: "sipSession \<Rightarrow> unit action" where
  "unhold session =
     andThen (unmute session)
       (\<lambda>_. invoke (getSipSessionId (Some session)) Unhold (sessionUnhold session))"

text \<open>The tracks the session sends, as \<^verbatim>\<open>_toggleVideo\<close> finds them.\<close>

definition outgoingVideoTracks :: "peerConnection \<Rightarrow> mediaTrack list" where
  "outgoingVideoTracks pc =
     (case getSenders pc of
        Some senders \<Rightarrow> senderTracks Video senders
      | None \<Rightarrow> concat (map getVideoTracks (getLocalStreams pc)))"

subsection \<open>Streams of a peer connection\<close>

definition tracksOf :: "mediaTrack option list \<Rightarrow> mediaStream" where
  "tracksOf xs = concat (map (\<lambda>x. case x of None \<Rightarrow> [] | Some t \<Rightarrow> [t]) xs)"

text \<open>
  \<^verbatim>\<open>_getRemoteStream(pc)\<close> and \<^verbatim>\<open>_getLocalStream(pc)\<close>: a new stream of the receivers'
  (senders') tracks, or the first of the connection's streams, which is undefined when
  there is none.
\<close>

definition getRemoteStream :: "peerConnection \<Rightarrow> mediaStream option" where
  "getRemoteStream pc =
     (case getReceivers pc of
        Some receivers \<Rightarrow> Some (tracksOf receivers)
      | None \<Rightarrow> (case getRemoteStreams pc of [] \<Rightarrow> None | x # _ \<Rightarrow> Some x))"

definition getLocalStream :: "peerConnection \<Rightarrow> mediaStream option" where
  "getLocalStream pc =
     (case getSenders pc of
        Some senders \<Rightarrow> Some (tracksOf senders)
      | None \<Rightarrow> (case getLocalStreams pc of [] \<Rightarrow> None | x # _ \<Rightarrow> Some x))"

definition streamRefOf :: "mediaStream option \<Rightarrow> streamRef" where
  "streamRefOf v = (case v of None \<Rightarrow> UndefinedStream | Some x \<Rightarrow> StreamOf x)"

subsection \<open>Merging\<close>

definition MAX_MERGE_SESSIONS :: nat where
  "MAX_MERGE_SESSIONS = 4"

definition checkMaxMergeSessions :: "nat \<Rightarrow> unit action" where
  "checkMaxMergeSessions nbSessions =
     (if nbSessions < MAX_MERGE_SESSIONS then ok () else perform ConsoleWarn)"

text \<open>
  The audio graph: \<^verbatim>\<open>source.connect(destination)\<close> adds a connection;
  \<^verbatim>\<open>source.disconnect(destination)\<close> removes it, and with a null or undefined argument
  removes every connection of the source.
\<close>

definition connect :: "nat \<Rightarrow> nat \<Rightarrow> client \<Rightarrow> client" where
  "connect src dst w = w\<lparr>connections := insert (src, dst) (connections w)\<rparr>"

definition disconnect :: "nat \<Rightarrow> nat option \<Rightarrow> client \<Rightarrow> client" where
  "disconnect src dst w =
     (case dst of
        Some d \<Rightarrow> w\<lparr>connections := connections w - {(src, d)}\<rparr>
      | None \<Rightarrow> w\<lparr>connections := {c \<in> connections w. fst c \<noteq> src}\<rparr>)"

text \<open>\<^verbatim>\<open>_addAudioStream(mediaStream)\<close>\<close>

definition addAudioStream :: "mediaStream option \<Rightarrow> nat option action" where
  "addAudioStream mediaStream w =
     (if \<not> audioContext w \<or> mediaStream = None then ok None w
      else
        let audioSource = nextNode w;
            w1 = w\<lparr>nextNode := Suc audioSource\<rparr>;
            w2 = (case mergeDestination w1 of
                    Some d \<Rightarrow> connect audioSource d w1
                  | None \<Rightarrow> w1)
        in ok (Some audioSource) w2)"

text \<open>
  The closure \<^verbatim>\<open>bindStreams\<close> of \<^verbatim>\<open>addToMerge\<close>, up to the promise it returns; the
  promise's callback is the task \<open>BindThen\<close>.
\<close>

definition bindStreams ::
    "sipSession \<Rightarrow> peerConnection option \<Rightarrow> mediaStream option \<Rightarrow> task action" where
  "bindStreams session pco remoteStream =
     (case pco of
        None \<Rightarrow> throw TypeError
      | Some pc \<Rightarrow>
          (let sid = getSipSessionId (Some session); localStream = getLocalStream pc in
           andThen (addAudioStream localStream) (\<lambda>localSource.
           andThen (addAudioStream remoteStream) (\<lambda>remoteSource.
           andThen (if remoteStream \<noteq> None
                    then perform (RemoveStream sid (streamRefOf remoteStream)) else ok ()) (\<lambda>_.
           andThen (perform (RemoveStream sid (streamRefOf localStream))) (\<lambda>_.
           andThen (\<lambda>w. (case mergeDestination w of
                           Some d \<Rightarrow> perform (AddStream sid (DestinationStream d))
                         | None \<Rightarrow> ok ()) w) (\<lambda>_.
           andThen (perform (CreateOffer sid)) (\<lambda>_.
           promise (BindThen session localSource remoteSource)))))))))"

definition addToMerge :: "sipSession \<Rightarrow> task action" where
  "addToMerge session =
     andThen (\<lambda>w. checkMaxMergeSessions (length (audioStreams w) + 1) w) (\<lambda>_ w.
       (case sessionDescriptionHandler session of
          None \<Rightarrow> throw TypeError w
        | Some pco \<Rightarrow>
            if localHold session \<and> \<not> (isWeb w \<and> firefox w)
            then andThen (unhold session) (\<lambda>_. ok (AwaitAddTrack session)) w
            else (case pco of
                    None \<Rightarrow> throw TypeError w
                  | Some pc \<Rightarrow> bindStreams session pco (getRemoteStream pc) w)))"

text \<open>The listener's callback \<^verbatim>\<open>e => bindStreams(e.streams[0])\<close> of a held session.\<close>

definition onAddTrack :: "sipSession \<Rightarrow> mediaStream option \<Rightarrow> task action" where
  "onAddTrack session stream =
     (case sessionDescriptionHandler session of
        None \<Rightarrow> throw TypeError
      | Some pco \<Rightarrow> bindStreams session pco stream)"

definition merge :: "sipSession list \<Rightarrow> task list action" where
  "merge sessions =
     andThen (checkMaxMergeSessions (length sessions)) (\<lambda>_.
     andThen (\<lambda>w. if audioContext w
                   then ok () (w\<lparr>mergeDestination := Some (nextNode w), nextNode := Suc (nextNode w)\<rparr>)
                   else ok () w) (\<lambda>_.
     andThen (\<lambda>w. if audioContext w \<and> contextSuspended w then perform ResumeContext w else ok () w) (\<lambda>_.
     mapA addToMerge sessions)))"

text \<open>
  \<^verbatim>\<open>removeFromMerge(session, shouldHold = true)\<close>, up to the promise it returns (callback:
  \<open>RemoveThen\<close>) or the \<^verbatim>\<open>null\<close> of its early return. Destructuring \<^verbatim>\<open>undefined\<close>,
  calling \<^verbatim>\<open>disconnect\<close> on a null or undefined local source and reading a property of an
  absent peer connection throw.
\<close>

definition closed :: "peerConnection \<Rightarrow> bool" where
  "closed pc = (signalingState pc = ''closed'' \<or> iceConnectionState pc = ''closed'')"

definition removeFromMerge :: "sipSession \<Rightarrow> bool \<Rightarrow> task action" where
  "removeFromMerge session shouldHold w =
     (let sid = getSipSessionId (Some session) in
      case sessionDescriptionHandler session of
        None \<Rightarrow> throw TypeError w
      | Some pco \<Rightarrow>
          (case destructure (getAudioStream w sid) of
             None \<Rightarrow> throw TypeError w
           | Some entry \<Rightarrow>
               (let w1 = (case remoteAudioSource entry of
                            Some r \<Rightarrow> disconnect r (mergeDestination w) w
                          | None \<Rightarrow> w)
                in case localAudioSource entry of
                     None \<Rightarrow> throw TypeError w1
                   | Some l \<Rightarrow>
                       (let w2 = disconnect l (mergeDestination w1) w1;
                            finish = andThen (\<lambda>v. ok () (deleteAudioStream sid v)) (\<lambda>_.
                                     andThen (case pco of None \<Rightarrow> throw TypeError
                                              | Some _ \<Rightarrow> perform (CreateOffer sid)) (\<lambda>_.
                                     promise (RemoveThen session shouldHold)))
                        in if audioContext w2 then
                             (let newDestination = nextNode w2;
                                  w3 = connect l newDestination (w2\<lparr>nextNode := Suc newDestination\<rparr>);
                                  w4 = (case remoteAudioSource entry of
                                          Some r \<Rightarrow> connect r newDestination w3
                                        | None \<Rightarrow> w3)
                              in case pco of
                                   None \<Rightarrow> throw TypeError w4
                                 | Some pc \<Rightarrow>
                                     if closed pc then ok NullResult w4
                                     else andThen (case mergeDestination w4 of
                                                     Some d \<Rightarrow> perform (RemoveStream sid (DestinationStream d))
                                                   | None \<Rightarrow> ok ()) (\<lambda>_.
                                          andThen (perform (AddStream sid (DestinationStream newDestination))) (\<lambda>_.
                                          finish)) w4)
                           else finish w2))))"

text \<open>
  Running a callback later. \<open>BindThen\<close> is \<^verbatim>\<open>addToMerge\<close>'s
  \<^verbatim>\<open>offer => { this.audioStreams[id] = {...}; pc.setLocalDescription(offer); }\<close>, \<open>RemoveThen\<close>
  is \<^verbatim>\<open>removeFromMerge\<close>'s, which holds the session when asked to. A value that is no
  promise settles at once.
\<close>

definition runTask :: "task \<Rightarrow> unit action" where
  "runTask t =
     (case t of
        BindThen session localSource remoteSource \<Rightarrow>
          andThen (\<lambda>w. ok () (setAudioStream (getSipSessionId (Some session))
                      \<lparr>localAudioSource = localSource, remoteAudioSource = remoteSource\<rparr> w))
            (\<lambda>_. perform (SetLocalDescription (getSipSessionId (Some session))))
      | RemoveThen session shouldHold \<Rightarrow>
          andThen (perform (SetLocalDescription (getSipSessionId (Some session))))
            (\<lambda>_. if shouldHold then hold session else ok ())
      | AwaitAddTrack session \<Rightarrow> ok ()
      | NullResult \<Rightarrow> ok ())"

text \<open>Every callback of a list runs, whether or not an earlier one threw.\<close>

fun settleAll :: "task list \<Rightarrow> client \<Rightarrow> error list \<times> client" where
  "settleAll [] w = ([], w)"
| "settleAll (t # ts) w =
     (case runTask t w of
        (Inl e, w') \<Rightarrow> (case settleAll ts w' of (es, w'') \<Rightarrow> (e # es, w''))
      | (Inr _, w') \<Rightarrow> settleAll ts w')"

text \<open>
  \<^verbatim>\<open>unmerge(sessions)\<close>: the synchronous \<^verbatim>\<open>sessions.map((session, i) => ...)\<close>, which
  yields the promises, and then what \<^verbatim>\<open>Promise.all(promises).then(...)\<close> does once they have
  settled: it clears \<^verbatim>\<open>mergeDestination\<close> and resolves to true when none was rejected.
\<close>

fun removeEach :: "nat \<Rightarrow> nat \<Rightarrow> sipSession list \<Rightarrow> task list action" where
  "removeEach nbSessions i [] = ok []"
| "removeEach nbSessions i (session # sessions) =
     andThen (removeFromMerge session (i < nbSessions - 1)) (\<lambda>p.
     andThen (removeEach nbSessions (Suc i) sessions) (\<lambda>ps. ok (p # ps)))"

definition unmerge :: "sipSession list \<Rightarrow> task list action" where
  "unmerge sessions = removeEach (length sessions) 0 sessions"

definition unmergeSettled :: "task list \<Rightarrow> bool action" where
  "unmergeSettled promises w =
     (case settleAll promises w of
        ([], w') \<Rightarrow> ok True (w'\<lparr>mergeDestination := None\<rparr>)
      | (e # _, w') \<Rightarrow> throw e w')"

subsection \<open>Hanging up\<close>

text \<open>
  \<^verbatim>\<open>_cleanupMedia(session)\<close>: \<^verbatim>\<open>cleanAudio\<close> calls \<^verbatim>\<open>pause()\<close> on the element it looks up,
  which throws when there is none. The objects \<^verbatim>\<open>videoSessions\<close> and \<^verbatim>\<open>audioElements\<close>
  have the prototype \<^verbatim>\<open>Object.prototype\<close> that the constructor gave them (nothing modelled
  here assigns to them), so that their own keys decide what the method does: \<^verbatim>\<open>delete\<close>
  removes nothing for a name that \<^verbatim>\<open>in\<close> finds inherited, and no inherited value has a
  method \<^verbatim>\<open>pause\<close>.
\<close>

definition cleanAudio :: "string \<Rightarrow> unit action" where
  "cleanAudio i w =
     (case audioElements w i of
        None \<Rightarrow> throw TypeError w
      | Some element \<Rightarrow> ok () (w\<lparr>audioElements := (audioElements w)(i := None)\<rparr>))"

definition cleanupMedia :: "sipSession option \<Rightarrow> unit action" where
  "cleanupMedia session w =
     (let sessionId = getSipSessionId session;
          w1 = (if session \<noteq> None \<and> sessionId \<in> dom (videoSessions w)
                then w\<lparr>videoSessions := (videoSessions w)(sessionId := None)\<rparr> else w)
      in if hasAudio w1 \<and> isWeb w1 then
           (case session of
              Some _ \<Rightarrow> cleanAudio sessionId w1
            | None \<Rightarrow> ok () (w1\<lparr>audioElements := Map.empty\<rparr>))
         else ok () w1)"

text \<open>
  The body of \<^verbatim>\<open>hangup\<close>'s \<^verbatim>\<open>try\<close> block. The table \<^verbatim>\<open>actions\<close> maps the statuses
  \<^verbatim>\<open>STATUS_1XX_RECEIVED\<close> and \<^verbatim>\<open>STATUS_WAITING_FOR_ANSWER\<close> to \<^verbatim>\<open>cancel\<close> and the statuses
  \<^verbatim>\<open>STATUS_CANCELED\<close> and \<^verbatim>\<open>STATUS_TERMINATED\<close> to \<^verbatim>\<open>null\<close>; the test
  \<^verbatim>\<open>if (actions[session.status])\<close> is false for \<^verbatim>\<open>null\<close> as it is for a status the table lacks.
\<close>

definition hangupCancel :: "sipSession \<Rightarrow> unit action" where
  "hangupCancel session =
     (let sid = getSipSessionId (Some session); isISC = (cancel session \<noteq> None) in
      if isISC \<and> \<not> isCanceled session then invoke sid Cancel (cancel session)
      else if \<not> canceled session then invoke sid Reject (reject session)
      else ok ())"

definition hangupReject :: "sipSession \<Rightarrow> unit action" where
  "hangupReject session =
     (if reject session \<noteq> None
      then invoke (getSipSessionId (Some session)) Reject (reject session) else ok ())"

definition actions :: "sessionStatus \<Rightarrow> (sipSession \<Rightarrow> unit action) option" where
  "actions st =
     (if st = STATUS_1XX_RECEIVED then Some hangupCancel
      else if st = STATUS_WAITING_FOR_ANSWER then Some hangupCancel
      else if st = STATUS_CANCELED then None
      else if st = STATUS_TERMINATED then None
      else None)"

definition hangupBody :: "sipSession \<Rightarrow> unit action" where
  "hangupBody session =
     (let sid = getSipSessionId (Some session); isISC = (cancel session \<noteq> None) in
      andThen (cleanupMedia (Some session)) (\<lambda>_.
      andThen (\<lambda>w. if inAudioStreams sid w
                    then andThen (removeFromMerge session True) (\<lambda>_. ok ()) w
                    else ok () w) (\<lambda>_.
      andThen (cleanupMedia (Some session)) (\<lambda>_.
        case actions (status session) of
          Some action \<Rightarrow> action session
        | None \<Rightarrow>
            if isISC \<and> hasAnswer session \<and> bye session \<noteq> None
            then invoke sid Bye (bye session)
            else if isISC \<and> \<not> hasAnswer session then hangupCancel session
            else andThen (if stop session \<noteq> None then invoke sid Stop (stop session) else ok ())
                   (\<lambda>_. hangupReject session)))))"

text \<open>\<^verbatim>\<open>hangup\<close>: whatever the body throws is caught and logged with \<^verbatim>\<open>console.warn\<close>.\<close>

definition hangup :: "sipSession \<Rightarrow> client \<Rightarrow> client" where
  "hangup session w =
     (case hangupBody session w of
        (Inl e, w') \<Rightarrow> w'\<lparr>effects := effects w' @ [ConsoleWarn]\<rparr>
      | (Inr _, w') \<Rightarrow> w')"

subsection \<open>Inbound invitations\<close>

text \<open>\<^verbatim>\<open>/\r\nm=video /.test(session.request.body)\<close>\<close>

definition sessionWantsToDoVideo :: "sipRequest \<Rightarrow> bool" where
  "sessionWantsToDoVideo rq =
     test_unanchored (lit ([CHR 0x0D, CHR 0x0A] @ ''m=video '')) (body rq)"

text \<open>
  The handler of the user agent's \<^verbatim>\<open>invite\<close> event, from the line that computes
  \<^verbatim>\<open>shouldAutoAnswer = !!session.request.getHeader('alert-info')\<close>; the listeners that
  \<^verbatim>\<open>_setupSession\<close> and \<^verbatim>\<open>_fixLocalDescription\<close> register before it change none of the
  state kept here.
\<close>

definition onInvite :: "sipSession \<Rightarrow> unit action" where
  "onInvite session w =
     (case request session of
        None \<Rightarrow> throw TypeError w
      | Some rq \<Rightarrow>
          (let shouldAutoAnswer = truthy (getHeader rq ''alert-info'') in
           ok () (w\<lparr>emitted := emitted w @
                     [InviteEmitted (getSipSessionId (Some session))
                        (sessionWantsToDoVideo rq) shouldAutoAnswer]\<rparr>)))"

section \<open>Sequences of calls\<close>

text \<open>
  \<open>addThenRemove\<close>: \<^verbatim>\<open>addToMerge(session)\<close>, the callback of the promise it returned, then
  \<^verbatim>\<open>removeFromMerge(session, shouldHold)\<close>.
\<close>

definition addThenRemove :: "sipSession \<Rightarrow> bool \<Rightarrow> task action" where
  "addThenRemove session shouldHold =
     andThen (addToMerge session) (\<lambda>t.
     andThen (runTask t) (\<lambda>_. removeFromMerge session shouldHold))"

text \<open>
  \<open>mergeThenUnmergeAtOnce\<close>: \<^verbatim>\<open>merge(sessions); unmerge(sessions)\<close> in one turn of the event
  loop, so that no promise callback of \<^verbatim>\<open>merge\<close> has run when \<^verbatim>\<open>unmerge\<close> starts; the
  removals then settle. \<open>mergeSettleUnmerge\<close>: the same with the callbacks of \<^verbatim>\<open>merge\<close> run
  in between (a callback that throws rejects its own promise and stops nothing else).
\<close>

definition mergeThenUnmergeAtOnce :: "sipSession list \<Rightarrow> bool action" where
  "mergeThenUnmergeAtOnce sessions =
     andThen (merge sessions) (\<lambda>_. andThen (unmerge sessions) unmergeSettled)"

definition mergeSettleUnmerge :: "sipSession list \<Rightarrow> bool action" where
  "mergeSettleUnmerge sessions =
     andThen (merge sessions) (\<lambda>ts w.
       andThen (unmerge sessions) unmergeSettled (snd (settleAll ts w)))"

text \<open>
  Conditions under which the merge operations run to their end. Node numbers are handed
  out in increasing order, so the shared destination, when there is one, lies below
  \<open>nextNode\<close>. A session can be merged when it has a handler with an open peer connection
  and a local stream, and is not on hold (on hold, \<^verbatim>\<open>addToMerge\<close> waits for the next
  \<^verbatim>\<open>addTrack\<close> event instead, except in Firefox).
\<close>

definition allocated :: "client \<Rightarrow> bool" where
  "allocated w = (case mergeDestination w of None \<Rightarrow> True | Some d \<Rightarrow> d < nextNode w)"

definition mergeable :: "client \<Rightarrow> sipSession \<Rightarrow> bool" where
  "mergeable w session =
     ((case sessionDescriptionHandler session of
         Some (Some pc) \<Rightarrow> \<not> closed pc \<and> getLocalStream pc \<noteq> None
       | _ \<Rightarrow> False) \<and>
      \<not> (localHold session \<and> \<not> (isWeb w \<and> firefox w)))"

text \<open>Every entry of \<^verbatim>\<open>audioStreams\<close> has a local source.\<close>

definition sourced :: "client \<Rightarrow> bool" where
  "sourced w = (\<forall>k e. map_of (audioStreams w) k = Some e \<longrightarrow> localAudioSource e \<noteq> None)"

text \<open>The effects that are calls of a session's method.\<close>

fun isInvoke :: "effect \<Rightarrow> bool" where
  "isInvoke (Invoke _ _) = True"
| "isInvoke _ = False"

text \<open>The identifiers of a list of sessions.\<close>

definition ids :: "sipSession list \<Rightarrow> string set" where
  "ids ss = (\<lambda>s. getSipSessionId (Some s)) ` set ss"

section \<open>Example inputs\<close>

text \<open>
  A client as the constructor leaves it, in a browser (\<open>webClient\<close>: an audio context
  exists) and on a non-browser platform (\<open>mobileClient\<close>: \<^verbatim>\<open>_isWeb()\<close> is false and the
  audio context is null); a session and a peer connection with nothing special about
  them; and the sessions the examples below use.
\<close>

definition webClient :: client where
  "webClient = \<lparr>hasAudio = True, isWeb = True, firefox = False, videoEnabled = False,
     audioContext = True, contextSuspended = False, mergeDestination = None,
     audioStreams = [], audioStreamsProto = None, videoSessions = Map.empty,
     audioElements = Map.empty,
     enabled = (\<lambda>_. True), connections = {}, nextNode = 0, floating = [], effects = [],
     emitted = []\<rparr>"

definition mobileClient :: client where
  "mobileClient = webClient\<lparr>isWeb := False, audioContext := False\<rparr>"

definition darkClient :: client where
  "darkClient = webClient\<lparr>enabled := (\<lambda>_. False)\<rparr>"

definition plainConnection :: peerConnection where
  "plainConnection = \<lparr>getSenders = Some [Some \<lparr>trackId = 0, kind = Audio\<rparr>],
     getReceivers = Some [Some \<lparr>trackId = 10, kind = Audio\<rparr>],
     getLocalStreams = [], getRemoteStreams = [],
     signalingState = ''stable'', iceConnectionState = ''connected''\<rparr>"

definition plainSession :: "string \<Rightarrow> sipSession" where
  "plainSession i = \<lparr>request = None, ident = Some i,
     sessionDescriptionHandler = Some (Some plainConnection), status = STATUS_CONFIRMED,
     cancel = None, reject = None, bye = Some Returns, stop = None,
     sessionHold = Some Returns, sessionUnhold = Some Returns,
     isCanceled = False, canceled = False, hasAnswer = True, localHold = False\<rparr>"

text \<open>A call that sends an audio track and a video track.\<close>

definition videoConnection :: peerConnection where
  "videoConnection = plainConnection\<lparr>getSenders :=
       Some [Some \<lparr>trackId = 0, kind = Audio\<rparr>, Some \<lparr>trackId = 1, kind = Video\<rparr>]\<rparr>"

definition videoCall :: sipSession where
  "videoCall = (plainSession ''call-1'')\<lparr>sessionDescriptionHandler :=
     Some (Some videoConnection)\<rparr>"

text \<open>An outbound call that was answered and has since been terminated.\<close>

definition terminatedCall :: sipSession where
  "terminatedCall = (plainSession ''call-2'')\<lparr>status := STATUS_TERMINATED,
     cancel := Some Returns, bye := Some Returns, hasAnswer := True\<rparr>"

text \<open>An inbound invitation whose request carries an \<^verbatim>\<open>alert-info\<close> header with no value.\<close>

definition emptyAlertRequest :: sipRequest where
  "emptyAlertRequest = \<lparr>callId = Some ''call-3'', body = ''v=0'',
     headers = [(''alert-info'', [])]\<rparr>"

definition emptyAlertInvite :: sipSession where
  "emptyAlertInvite = (plainSession ''call-3'')\<lparr>request := Some emptyAlertRequest,
     status := STATUS_WAITING_FOR_ANSWER\<rparr>"

definition autoAnswerRequest :: sipRequest where
  "autoAnswerRequest = \<lparr>callId = Some ''call-4'', body = ''v=0'',
     headers = [(''alert-info'', ''info=alert-autoanswer'')]\<rparr>"

definition autoAnswerInvite :: sipSession where
  "autoAnswerInvite = (plainSession ''call-4'')\<lparr>request := Some autoAnswerRequest,
     status := STATUS_WAITING_FOR_ANSWER\<rparr>"

text \<open>A browser client in which a merge has been started, and two calls to merge.\<close>

definition mergingClient :: client where
  "mergingClient = webClient\<lparr>mergeDestination := Some 0, nextNode := 1\<rparr>"

definition firstCall :: sipSession where
  "firstCall = plainSession ''call-5''"

definition secondCall :: sipSession where
  "secondCall = plainSession ''call-6''"

text \<open>
  Calls whose identifiers are names that every object inherits: the accessor
  \<^verbatim>\<open>__proto__\<close>, and \<^verbatim>\<open>constructor\<close> for a call that was answered and has ended.
\<close>

definition protoCall :: sipSession where
  "protoCall = plainSession ''__proto__''"

definition constructorCall :: sipSession where
  "constructorCall = (plainSession ''constructor'')\<lparr>status := STATUS_TERMINATED,
     cancel := Some Returns, bye := Some Returns, hasAnswer := True\<rparr>"

text \<open>Three and four calls to merge at once.\<close>

definition threeCalls :: "sipSession list" where
  "threeCalls = [plainSession ''call-a'', plainSession ''call-b'', plainSession ''call-c'']"

definition fourCalls :: "sipSession list" where
  "fourCalls = threeCalls @ [plainSession ''call-d'']"

chapter \<open>Verification\<close>

section \<open>Matching the private-address pattern\<close>

lemma in_rests_Chr: "r \<in> set (rests (Chr c) s) \<longleftrightarrow> s = c # r"
  by (auto split: list.splits)

lemma in_rests_Range:
  "r \<in> set (rests (Range lo hi) s) \<longleftrightarrow>
     (\<exists>x. s = x # r \<and> (of_char lo :: nat) \<le> of_char x \<and> (of_char x :: nat) \<le> of_char hi)"
  by (auto split: list.splits)

lemma in_rests_Seq:
  "r \<in> set (rests (Seq r1 r2) s) \<longleftrightarrow> (\<exists>m. m \<in> set (rests r1 s) \<and> r \<in> set (rests r2 m))"
  by auto

lemma in_rests_Alt:
  "r \<in> set (rests (Alt r1 r2) s) \<longleftrightarrow> r \<in> set (rests r1 s) \<or> r \<in> set (rests r2 s)"
  by auto

lemma in_rests_lit: "r \<in> set (rests (lit w) s) \<longleftrightarrow> s = w @ r"
  by (induction w arbitrary: s) (auto simp: in_rests_Chr)

lemma any_star_self: "s \<in> set (any_star s)"
  by (cases s) auto

lemma exec_is_null_iff: "exec_is_null r s \<longleftrightarrow> \<not> (\<exists>t. t \<in> set (rests r s))"
  unfolding exec_is_null_def by (cases "rests r s") auto

lemma dot_tail: "(\<exists>t. t \<in> set (rests (Seq (Chr CHR ''.'') AnyStar) m)) \<longleftrightarrow> (\<exists>u. m = CHR ''.'' # u)"
proof -
  have "(\<exists>t. t \<in> set (rests (Seq (Chr CHR ''.'') AnyStar) m)) \<longleftrightarrow>
        (\<exists>t u. m = CHR ''.'' # u \<and> t \<in> set (any_star u))"
    by (auto simp only: in_rests_Seq in_rests_Chr rests.simps(6))
  also have "\<dots> \<longleftrightarrow> (\<exists>u. m = CHR ''.'' # u)"
    using any_star_self by blast
  finally show ?thesis .
qed

declare dec.simps [simp del]

lemma dec_nonempty: "dec n \<noteq> []"
  by (subst dec.simps) simp

lemma of_char_digit: "n < 10 \<Longrightarrow> (of_char (digit n) :: nat) = 48 + n"
  by (simp add: digit_def)

lemma digit_not_dot: "n < 10 \<Longrightarrow> digit n \<noteq> CHR ''.''"
proof
  assume "n < 10" and "digit n = CHR ''.''"
  then have "(of_char (digit n) :: nat) = of_char CHR ''.''" by simp
  with \<open>n < 10\<close> show False by (simp add: of_char_digit)
qed

lemma dec_no_dot: "CHR ''.'' \<notin> set (dec n)"
proof (induction n rule: dec.induct)
  case (1 n)
  show ?case
  proof (cases "n < 10")
    case True
    then show ?thesis using digit_not_dot [of n] by (subst dec.simps) auto
  next
    case False
    then show ?thesis using 1 digit_not_dot [of "n mod 10"] by (subst dec.simps) auto
  qed
qed

lemma digit_inj: "m < 10 \<Longrightarrow> n < 10 \<Longrightarrow> digit m = digit n \<Longrightarrow> m = n"
proof -
  assume "m < 10" "n < 10" "digit m = digit n"
  then have "(of_char (digit m) :: nat) = of_char (digit n)" by simp
  with \<open>m < 10\<close> \<open>n < 10\<close> show ?thesis by (simp add: of_char_digit)
qed

lemma dec_inj: "dec m = dec n \<Longrightarrow> m = n"
proof (induction m arbitrary: n rule: dec.induct)
  case (1 m)
  show ?case
  proof (cases "m < 10")
    case True
    show ?thesis
    proof (cases "n < 10")
      case True
      with \<open>m < 10\<close> 1(2) have "digit m = digit n"
        by (simp add: dec.simps [of m] dec.simps [of n])
      with \<open>m < 10\<close> \<open>n < 10\<close> show ?thesis by (rule digit_inj)
    next
      case False
      with \<open>m < 10\<close> 1(2) have "[digit m] = dec (n div 10) @ [digit (n mod 10)]"
        by (simp add: dec.simps [of m] dec.simps [of n])
      then show ?thesis using dec_nonempty [of "n div 10"] by simp
    qed
  next
    case False
    show ?thesis
    proof (cases "n < 10")
      case True
      with \<open>\<not> m < 10\<close> 1(2) have "dec (m div 10) @ [digit (m mod 10)] = [digit n]"
        by (simp add: dec.simps [of m] dec.simps [of n])
      then show ?thesis using dec_nonempty [of "m div 10"] by simp
    next
      case nF: False
      with \<open>\<not> m < 10\<close> 1(2)
      have eq: "dec (m div 10) @ [digit (m mod 10)] = dec (n div 10) @ [digit (n mod 10)]"
        by (simp add: dec.simps [of m] dec.simps [of n])
      then have "dec (m div 10) = dec (n div 10)" and d: "digit (m mod 10) = digit (n mod 10)"
        by simp_all
      then have "m div 10 = n div 10" using 1(1) [OF False] by blast
      moreover have "m mod 10 = n mod 10" using d by (intro digit_inj) simp_all
      ultimately show ?thesis by (metis div_mult_mod_eq)
    qed
  qed
qed

lemma dec_eq_iff: "dec n = dec k \<longleftrightarrow> n = k"
  using dec_inj by blast

lemma dec_10: "dec 10 = ''10''" by code_simp
lemma dec_127: "dec 127 = ''127''" by code_simp
lemma dec_172: "dec 172 = ''172''" by code_simp
lemma dec_192: "dec 192 = ''192''" by code_simp
lemma dec_168: "dec 168 = ''168''" by code_simp

lemma split_dot:
  "CHR ''.'' \<notin> set xs \<Longrightarrow> CHR ''.'' \<notin> set w \<Longrightarrow>
     (xs @ CHR ''.'' # r = w @ CHR ''.'' # r') = (xs = w \<and> r = r')"
proof (induction xs arbitrary: w)
  case Nil
  then show ?case by (cases w) auto
next
  case (Cons x xs)
  then show ?case by (cases w) auto
qed


lemma length_dec_small: "n < 10 \<Longrightarrow> dec n = [digit n]"
  by (simp add: dec.simps [of n])

lemma dec_step: "10 \<le> b \<Longrightarrow> dec b = dec (b div 10) @ [digit (b mod 10)]"
  by (subst dec.simps) simp

lemma dec_two: "10 \<le> b \<Longrightarrow> b < 100 \<Longrightarrow> dec b = [digit (b div 10), digit (b mod 10)]"
proof -
  assume b: "10 \<le> b" "b < 100"
  then have "b div 10 < 10" by simp
  then have "dec (b div 10) = [digit (b div 10)]" by (rule length_dec_small)
  with dec_step [OF b(1)] show ?thesis by simp
qed

lemma dec_long: "100 \<le> b \<Longrightarrow> 3 \<le> length (dec b)"
proof -
  assume b: "100 \<le> b"
  then have "10 \<le> b" and "10 \<le> b div 10" by simp_all
  then have "dec b = (dec (b div 10 div 10) @ [digit (b div 10 mod 10)]) @ [digit (b mod 10)]"
    using dec_step [of b] dec_step [of "b div 10"] by simp
  then have "length (dec b) = length (dec (b div 10 div 10)) + 2" by simp
  moreover have "0 < length (dec (b div 10 div 10))" using dec_nonempty by simp
  ultimately show ?thesis by linarith
qed

lemma two_digit_class:
  assumes "1 \<le> k" "k < 10" "hi < 10"
  shows "(\<exists>x. dec b = [digit k, x] \<and> 48 + lo \<le> (of_char x :: nat) \<and> (of_char x :: nat) \<le> 48 + hi)
           \<longleftrightarrow> (10 * k + lo \<le> b \<and> b \<le> 10 * k + hi)"
proof
  assume "\<exists>x. dec b = [digit k, x] \<and> 48 + lo \<le> (of_char x :: nat) \<and> (of_char x :: nat) \<le> 48 + hi"
  then obtain x where x: "dec b = [digit k, x]" "48 + lo \<le> (of_char x :: nat)" "(of_char x :: nat) \<le> 48 + hi"
    by blast
  have "10 \<le> b"
  proof (rule ccontr)
    assume "\<not> 10 \<le> b"
    then have "dec b = [digit b]" by (simp add: length_dec_small)
    with x(1) show False by simp
  qed
  moreover have "b < 100"
  proof (rule ccontr)
    assume "\<not> b < 100"
    then have "3 \<le> length (dec b)" by (simp add: dec_long)
    with x(1) show False by simp
  qed
  ultimately have d: "dec b = [digit (b div 10), digit (b mod 10)]" by (rule dec_two)
  with x(1) have "digit (b div 10) = digit k" and xe: "x = digit (b mod 10)" by simp_all
  moreover have "b div 10 < 10" using \<open>b < 100\<close> by simp
  ultimately have bk: "b div 10 = k" using assms(2) digit_inj by blast
  have ox: "(of_char x :: nat) = 48 + b mod 10" using xe by (simp add: of_char_digit)
  have "b = 10 * k + b mod 10" using bk by (metis div_mult_mod_eq mult.commute)
  moreover have "lo \<le> b mod 10" "b mod 10 \<le> hi" using x(2,3) ox by simp_all
  ultimately show "10 * k + lo \<le> b \<and> b \<le> 10 * k + hi" by linarith
next
  assume r: "10 * k + lo \<le> b \<and> b \<le> 10 * k + hi"
  with assms have b: "10 \<le> b" "b < 100" by simp_all
  then have d: "dec b = [digit (b div 10), digit (b mod 10)]" by (rule dec_two)
  have k: "b div 10 = k" using r assms by linarith
  have o: "(of_char (digit (b mod 10)) :: nat) = 48 + b mod 10" by (simp add: of_char_digit)
  have "b = 10 * k + b mod 10" using k by (metis div_mult_mod_eq mult.commute)
  then have "lo \<le> b mod 10 \<and> b mod 10 \<le> hi" using r by linarith
  then have "dec b = [digit k, digit (b mod 10)] \<and> 48 + lo \<le> (of_char (digit (b mod 10)) :: nat) \<and> (of_char (digit (b mod 10)) :: nat) \<le> 48 + hi"
    unfolding o using d k by simp
  then show "\<exists>x. dec b = [digit k, x] \<and> 48 + lo \<le> (of_char x :: nat) \<and> (of_char x :: nat) \<le> 48 + hi"
    by blast
qed

declare rests.simps [simp del]

lemma seq_nonempty:
  "(\<exists>t. t \<in> set (rests (Seq r1 r2) s)) \<longleftrightarrow> (\<exists>m. m \<in> set (rests r1 s) \<and> (\<exists>t. t \<in> set (rests r2 m)))"
  unfolding in_rests_Seq by blast

declare lit.simps [simp del]

lemma regex_shape:
  "\<not> exec_is_null (Seq r (Seq (Chr CHR ''.'') AnyStar)) s \<longleftrightarrow>
     (\<exists>m. m \<in> set (rests r s) \<and> (\<exists>u. m = CHR ''.'' # u))"
  unfolding exec_is_null_iff using seq_nonempty [of r "Seq (Chr CHR ''.'') AnyStar" s] dot_tail
  by simp

lemma match_literal:
  assumes "CHR ''.'' \<notin> set xs" "CHR ''.'' \<notin> set w"
  shows "(\<exists>m. xs @ CHR ''.'' # r = w @ m \<and> (\<exists>u. m = CHR ''.'' # u)) \<longleftrightarrow> xs = w"
proof -
  have "(\<exists>m. xs @ CHR ''.'' # r = w @ m \<and> (\<exists>u. m = CHR ''.'' # u)) \<longleftrightarrow>
        (\<exists>u. xs @ CHR ''.'' # r = w @ CHR ''.'' # u)" by blast
  also have "\<dots> \<longleftrightarrow> xs = w" using split_dot [OF assms] by blast
  finally show ?thesis .
qed

lemma match_class:
  assumes "CHR ''.'' \<notin> set xs" "c \<noteq> CHR ''.''" "46 < (of_char lo :: nat)"
  shows "(\<exists>m. (\<exists>y. xs @ CHR ''.'' # r = c # y \<and>
              (\<exists>x. y = x # m \<and> (of_char lo :: nat) \<le> of_char x \<and> (of_char x :: nat) \<le> of_char hi)) \<and>
              (\<exists>u. m = CHR ''.'' # u))
         \<longleftrightarrow> (\<exists>x. xs = [c, x] \<and> (of_char lo :: nat) \<le> of_char x \<and> (of_char x :: nat) \<le> of_char hi)"
proof
  assume "\<exists>m. (\<exists>y. xs @ CHR ''.'' # r = c # y \<and>
              (\<exists>x. y = x # m \<and> (of_char lo :: nat) \<le> of_char x \<and> (of_char x :: nat) \<le> of_char hi)) \<and>
              (\<exists>u. m = CHR ''.'' # u)"
  then obtain x u where e: "xs @ CHR ''.'' # r = [c, x] @ CHR ''.'' # u"
    and x: "(of_char lo :: nat) \<le> of_char x" "(of_char x :: nat) \<le> of_char hi"
    by auto
  have "x \<noteq> CHR ''.''" using x(1) assms(3) by auto
  with assms(2) have "CHR ''.'' \<notin> set [c, x]" by auto
  with e assms(1) have "xs = [c, x]" using split_dot by blast
  with x show "\<exists>x. xs = [c, x] \<and> (of_char lo :: nat) \<le> of_char x \<and> (of_char x :: nat) \<le> of_char hi"
    by blast
next
  assume "\<exists>x. xs = [c, x] \<and> (of_char lo :: nat) \<le> of_char x \<and> (of_char x :: nat) \<le> of_char hi"
  then show "\<exists>m. (\<exists>y. xs @ CHR ''.'' # r = c # y \<and>
              (\<exists>x. y = x # m \<and> (of_char lo :: nat) \<le> of_char x \<and> (of_char x :: nat) \<le> of_char hi)) \<and>
              (\<exists>u. m = CHR ''.'' # u)"
    by auto
qed

lemma digit_chars: "CHR ''1'' = digit 1" "CHR ''2'' = digit 2" "CHR ''3'' = digit 3"
  by code_simp+

lemma private_regex_on_dotted:
  "\<not> exec_is_null private_ip_regex (dec a @ CHR ''.'' # dec b @ CHR ''.'' # r) \<longleftrightarrow> private_range a b"
proof -
  let ?s = "dec a @ CHR ''.'' # dec b @ CHR ''.'' # r"
  let ?tail = "\<lambda>m. \<exists>u. m = CHR ''.'' # u"
  have na: "CHR ''.'' \<notin> set (dec a)" and nb: "CHR ''.'' \<notin> set (dec b)" by (rule dec_no_dot)+
  have m10: "(\<exists>m. m \<in> set (rests (lit ''10'') ?s) \<and> ?tail m) \<longleftrightarrow> a = 10"
    unfolding in_rests_lit using match_literal [OF na, of "''10''"] dec_eq_iff [of a 10]
    by (simp add: dec_10)
  have m127: "(\<exists>m. m \<in> set (rests (lit ''127'') ?s) \<and> ?tail m) \<longleftrightarrow> a = 127"
    unfolding in_rests_lit using match_literal [OF na, of "''127''"] dec_eq_iff [of a 127]
    by (simp add: dec_127)
  have m192: "(\<exists>m. m \<in> set (rests (lit ''192.168'') ?s) \<and> ?tail m) \<longleftrightarrow> a = 192 \<and> b = 168"
  proof -
    have "(\<exists>m. m \<in> set (rests (lit ''192.168'') ?s) \<and> ?tail m) \<longleftrightarrow>
          (\<exists>m. dec a @ CHR ''.'' # (dec b @ CHR ''.'' # r) = ''192'' @ CHR ''.'' # (''168'' @ m) \<and> ?tail m)"
      unfolding in_rests_lit by simp
    also have "\<dots> \<longleftrightarrow> dec a = ''192'' \<and> (\<exists>m. dec b @ CHR ''.'' # r = ''168'' @ m \<and> ?tail m)"
      using split_dot [OF na, of "''192''"] by auto
    also have "\<dots> \<longleftrightarrow> dec a = ''192'' \<and> dec b = ''168''"
      using match_literal [OF nb, of "''168''"] by simp
    also have "\<dots> \<longleftrightarrow> a = 192 \<and> b = 168"
      using dec_eq_iff [of a 192] dec_eq_iff [of b 168] by (simp add: dec_192 dec_168)
    finally show ?thesis .
  qed
  let ?cls = "Alt (Seq (Chr CHR ''1'') (Range CHR ''6'' CHR ''9''))
             (Alt (Seq (Chr CHR ''2'') (Range CHR ''0'' CHR ''9''))
                  (Seq (Chr CHR ''3'') (Range CHR ''0'' CHR ''1'')))"
  have cls: "(\<exists>m. m \<in> set (rests ?cls (dec b @ CHR ''.'' # r)) \<and> ?tail m) \<longleftrightarrow> 16 \<le> b \<and> b \<le> 31"
  proof -
    have c1: "(\<exists>m. m \<in> set (rests (Seq (Chr CHR ''1'') (Range CHR ''6'' CHR ''9'')) (dec b @ CHR ''.'' # r)) \<and> ?tail m)
              \<longleftrightarrow> 16 \<le> b \<and> b \<le> 19"
    proof -
      have "(\<exists>m. m \<in> set (rests (Seq (Chr CHR ''1'') (Range CHR ''6'' CHR ''9'')) (dec b @ CHR ''.'' # r)) \<and> ?tail m)
              \<longleftrightarrow> (\<exists>x. dec b = [CHR ''1'', x] \<and> (of_char CHR ''6'' :: nat) \<le> of_char x \<and> (of_char x :: nat) \<le> of_char CHR ''9'')"
        unfolding in_rests_Seq in_rests_Chr in_rests_Range by (rule match_class [OF nb]) simp_all
      also have "\<dots> \<longleftrightarrow> 16 \<le> b \<and> b \<le> 19"
        using two_digit_class [of 1 9 b 6] by (simp add: digit_chars(1))
      finally show ?thesis .
    qed
    have c2: "(\<exists>m. m \<in> set (rests (Seq (Chr CHR ''2'') (Range CHR ''0'' CHR ''9'')) (dec b @ CHR ''.'' # r)) \<and> ?tail m)
              \<longleftrightarrow> 20 \<le> b \<and> b \<le> 29"
    proof -
      have "(\<exists>m. m \<in> set (rests (Seq (Chr CHR ''2'') (Range CHR ''0'' CHR ''9'')) (dec b @ CHR ''.'' # r)) \<and> ?tail m)
              \<longleftrightarrow> (\<exists>x. dec b = [CHR ''2'', x] \<and> (of_char CHR ''0'' :: nat) \<le> of_char x \<and> (of_char x :: nat) \<le> of_char CHR ''9'')"
        unfolding in_rests_Seq in_rests_Chr in_rests_Range by (rule match_class [OF nb]) simp_all
      also have "\<dots> \<longleftrightarrow> 20 \<le> b \<and> b \<le> 29"
        using two_digit_class [of 2 9 b 0] by (simp add: digit_chars(2))
      finally show ?thesis .
    qed
    have c3: "(\<exists>m. m \<in> set (rests (Seq (Chr CHR ''3'') (Range CHR ''0'' CHR ''1'')) (dec b @ CHR ''.'' # r)) \<and> ?tail m)
              \<longleftrightarrow> 30 \<le> b \<and> b \<le> 31"
    proof -
      have "(\<exists>m. m \<in> set (rests (Seq (Chr CHR ''3'') (Range CHR ''0'' CHR ''1'')) (dec b @ CHR ''.'' # r)) \<and> ?tail m)
              \<longleftrightarrow> (\<exists>x. dec b = [CHR ''3'', x] \<and> (of_char CHR ''0'' :: nat) \<le> of_char x \<and> (of_char x :: nat) \<le> of_char CHR ''1'')"
        unfolding in_rests_Seq in_rests_Chr in_rests_Range by (rule match_class [OF nb]) simp_all
      also have "\<dots> \<longleftrightarrow> 30 \<le> b \<and> b \<le> 31"
        using two_digit_class [of 3 1 b 0] by (simp add: digit_chars(3))
      finally show ?thesis .
    qed
    have "(\<exists>m. m \<in> set (rests ?cls (dec b @ CHR ''.'' # r)) \<and> ?tail m) \<longleftrightarrow>
          (16 \<le> b \<and> b \<le> 19) \<or> (20 \<le> b \<and> b \<le> 29) \<or> (30 \<le> b \<and> b \<le> 31)"
      unfolding c1 [symmetric] c2 [symmetric] c3 [symmetric] in_rests_Alt by blast
    then show ?thesis by auto
  qed
  have m172: "(\<exists>m. m \<in> set (rests (Seq (lit ''172.'') ?cls) ?s) \<and> ?tail m) \<longleftrightarrow> a = 172 \<and> 16 \<le> b \<and> b \<le> 31"
  proof -
    have "(\<exists>m. m \<in> set (rests (Seq (lit ''172.'') ?cls) ?s) \<and> ?tail m) \<longleftrightarrow>
          (\<exists>m1. dec a @ CHR ''.'' # (dec b @ CHR ''.'' # r) = ''172'' @ CHR ''.'' # m1 \<and>
                (\<exists>m. m \<in> set (rests ?cls m1) \<and> ?tail m))"
      unfolding in_rests_Seq [of _ "lit ''172.''"] in_rests_lit by (simp del: rests.simps) blast
    also have "\<dots> \<longleftrightarrow> dec a = ''172'' \<and> (\<exists>m. m \<in> set (rests ?cls (dec b @ CHR ''.'' # r)) \<and> ?tail m)"
      using split_dot [OF na, of "''172''"] by auto
    also have "\<dots> \<longleftrightarrow> a = 172 \<and> 16 \<le> b \<and> b \<le> 31"
      unfolding cls using dec_eq_iff [of a 172] by (simp add: dec_172)
    finally show ?thesis .
  qed
  have "\<not> exec_is_null private_ip_regex ?s \<longleftrightarrow>
        (\<exists>m. m \<in> set (rests (Alt (lit ''10'') (Alt (lit ''127'')
              (Alt (Seq (lit ''172.'') ?cls) (lit ''192.168'')))) ?s) \<and> ?tail m)"
    unfolding private_ip_regex_def by (rule regex_shape)
  also have "\<dots> \<longleftrightarrow> a = 10 \<or> a = 127 \<or> (a = 172 \<and> 16 \<le> b \<and> b \<le> 31) \<or> (a = 192 \<and> b = 168)"
    unfolding m10 [symmetric] m127 [symmetric] m172 [symmetric] m192 [symmetric] in_rests_Alt
    by blast
  finally show ?thesis unfolding private_range_def .
qed

lemma starts_with_iff: "starts_with p s \<longleftrightarrow> (\<exists>u. s = p @ u)"
  unfolding starts_with_def by (metis append_eq_conv_conj append_take_drop_id)

lemma char_code:
  "(of_char x :: nat) = of_char c \<longleftrightarrow> x = c"
  by (rule of_char_eq_iff)

lemma r69:
  "(of_char CHR ''6'' :: nat) \<le> of_char x \<and> (of_char x :: nat) \<le> of_char CHR ''9'' \<longleftrightarrow>
     x \<in> set ''6789''"
proof
  assume "(of_char CHR ''6'' :: nat) \<le> of_char x \<and> (of_char x :: nat) \<le> of_char CHR ''9''"
  then have "(of_char x :: nat) = 54 \<or> (of_char x :: nat) = 55 \<or> (of_char x :: nat) = 56 \<or>
      (of_char x :: nat) = 57"
    by simp linarith
  then have "(of_char x :: nat) = of_char CHR ''6'' \<or> (of_char x :: nat) = of_char CHR ''7'' \<or>
             (of_char x :: nat) = of_char CHR ''8'' \<or> (of_char x :: nat) = of_char CHR ''9''"
    by simp
  then show "x \<in> set ''6789''"
    unfolding char_code by simp
next
  assume "x \<in> set ''6789''"
  then show "(of_char CHR ''6'' :: nat) \<le> of_char x \<and> (of_char x :: nat) \<le> of_char CHR ''9''"
    by auto
qed

lemma r01:
  "(of_char CHR ''0'' :: nat) \<le> of_char x \<and> (of_char x :: nat) \<le> of_char CHR ''1'' \<longleftrightarrow>
     x \<in> set ''01''"
proof
  assume "(of_char CHR ''0'' :: nat) \<le> of_char x \<and> (of_char x :: nat) \<le> of_char CHR ''1''"
  then have "(of_char x :: nat) = 48 \<or> (of_char x :: nat) = 49"
    by simp linarith
  then have "(of_char x :: nat) = of_char CHR ''0'' \<or> (of_char x :: nat) = of_char CHR ''1''"
    by simp
  then show "x \<in> set ''01''"
    unfolding char_code by simp
next
  assume "x \<in> set ''01''"
  then show "(of_char CHR ''0'' :: nat) \<le> of_char x \<and> (of_char x :: nat) \<le> of_char CHR ''1''"
    by auto
qed

lemma r09:
  "(of_char CHR ''0'' :: nat) \<le> of_char x \<and> (of_char x :: nat) \<le> of_char CHR ''9'' \<longleftrightarrow>
     x \<in> set ''0123456789''"
proof
  assume "(of_char CHR ''0'' :: nat) \<le> of_char x \<and> (of_char x :: nat) \<le> of_char CHR ''9''"
  then have "(of_char x :: nat) \<in> {48, 49, 50, 51, 52, 53, 54, 55, 56, 57}"
    by simp arith
  then have "(of_char x :: nat) \<in> of_char ` set ''0123456789''"
    by simp
  then show "x \<in> set ''0123456789''"
    unfolding inj_image_mem_iff [OF inj_of_char] .
next
  assume "x \<in> set ''0123456789''"
  then show "(of_char CHR ''0'' :: nat) \<le> of_char x \<and> (of_char x :: nat) \<le> of_char CHR ''9''"
    by auto
qed

lemma class_16_19:
  "(\<exists>m. m \<in> set (rests (Seq (Chr CHR ''1'') (Range CHR ''6'' CHR ''9'')) t) \<and> (\<exists>u. m = CHR ''.'' # u)) \<longleftrightarrow>
     starts_with ''16.'' t \<or> starts_with ''17.'' t \<or> starts_with ''18.'' t \<or> starts_with ''19.'' t"
  unfolding in_rests_Seq in_rests_Chr in_rests_Range r69 starts_with_iff by auto

lemma class_20_29:
  "(\<exists>m. m \<in> set (rests (Seq (Chr CHR ''2'') (Range CHR ''0'' CHR ''9'')) t) \<and> (\<exists>u. m = CHR ''.'' # u)) \<longleftrightarrow>
     starts_with ''20.'' t \<or> starts_with ''21.'' t \<or> starts_with ''22.'' t \<or> starts_with ''23.'' t \<or>
     starts_with ''24.'' t \<or> starts_with ''25.'' t \<or> starts_with ''26.'' t \<or> starts_with ''27.'' t \<or>
     starts_with ''28.'' t \<or> starts_with ''29.'' t"
  unfolding in_rests_Seq in_rests_Chr in_rests_Range r09 starts_with_iff by auto

lemma class_30_31:
  "(\<exists>m. m \<in> set (rests (Seq (Chr CHR ''3'') (Range CHR ''0'' CHR ''1'')) t) \<and> (\<exists>u. m = CHR ''.'' # u)) \<longleftrightarrow>
     starts_with ''30.'' t \<or> starts_with ''31.'' t"
  unfolding in_rests_Seq in_rests_Chr in_rests_Range r01 starts_with_iff by auto

lemma starts_with_172:
  "(\<exists>m1. s = ''172.'' @ m1 \<and> starts_with p m1) \<longleftrightarrow> starts_with (''172.'' @ p) s"
  unfolding starts_with_iff by auto

lemma private_regex_prefix:
  "\<not> exec_is_null private_ip_regex s \<longleftrightarrow> has_private_prefix s"
proof -
  let ?tail = "\<lambda>m. \<exists>u. m = CHR ''.'' # u"
  let ?c1 = "Seq (Chr CHR ''1'') (Range CHR ''6'' CHR ''9'')"
  let ?c2 = "Seq (Chr CHR ''2'') (Range CHR ''0'' CHR ''9'')"
  let ?c3 = "Seq (Chr CHR ''3'') (Range CHR ''0'' CHR ''1'')"
  let ?cls = "Alt ?c1 (Alt ?c2 ?c3)"
  have m10: "(\<exists>m. m \<in> set (rests (lit ''10'') s) \<and> ?tail m) \<longleftrightarrow> starts_with ''10.'' s"
    unfolding in_rests_lit starts_with_iff by auto
  have m127: "(\<exists>m. m \<in> set (rests (lit ''127'') s) \<and> ?tail m) \<longleftrightarrow> starts_with ''127.'' s"
    unfolding in_rests_lit starts_with_iff by auto
  have m192: "(\<exists>m. m \<in> set (rests (lit ''192.168'') s) \<and> ?tail m) \<longleftrightarrow> starts_with ''192.168.'' s"
    unfolding in_rests_lit starts_with_iff by auto
  have cls: "(\<exists>m. m \<in> set (rests ?cls t) \<and> ?tail m) \<longleftrightarrow>
       (\<exists>m. m \<in> set (rests ?c1 t) \<and> ?tail m) \<or> (\<exists>m. m \<in> set (rests ?c2 t) \<and> ?tail m) \<or>
       (\<exists>m. m \<in> set (rests ?c3 t) \<and> ?tail m)" for t
    unfolding in_rests_Alt by blast
  have m172: "(\<exists>m. m \<in> set (rests (Seq (lit ''172.'') ?cls) s) \<and> ?tail m) \<longleftrightarrow>
       list_ex (\<lambda>p. starts_with p s)
         [''172.16.'', ''172.17.'', ''172.18.'', ''172.19.'',
          ''172.20.'', ''172.21.'', ''172.22.'', ''172.23.'', ''172.24.'',
          ''172.25.'', ''172.26.'', ''172.27.'', ''172.28.'', ''172.29.'',
          ''172.30.'', ''172.31.'']"
  proof -
    have "(\<exists>m. m \<in> set (rests (Seq (lit ''172.'') ?cls) s) \<and> ?tail m) \<longleftrightarrow>
          (\<exists>m1. s = ''172.'' @ m1 \<and> (\<exists>m. m \<in> set (rests ?cls m1) \<and> ?tail m))"
      unfolding in_rests_Seq [of _ "lit ''172.''"] in_rests_lit by blast
    also have "\<dots> \<longleftrightarrow> (\<exists>m1. s = ''172.'' @ m1 \<and>
        (starts_with ''16.'' m1 \<or> starts_with ''17.'' m1 \<or> starts_with ''18.'' m1 \<or> starts_with ''19.'' m1 \<or>
         starts_with ''20.'' m1 \<or> starts_with ''21.'' m1 \<or> starts_with ''22.'' m1 \<or> starts_with ''23.'' m1 \<or>
         starts_with ''24.'' m1 \<or> starts_with ''25.'' m1 \<or> starts_with ''26.'' m1 \<or> starts_with ''27.'' m1 \<or>
         starts_with ''28.'' m1 \<or> starts_with ''29.'' m1 \<or> starts_with ''30.'' m1 \<or> starts_with ''31.'' m1))"
      unfolding cls class_16_19 class_20_29 class_30_31 by blast
    also have "\<dots> \<longleftrightarrow>
       list_ex (\<lambda>p. starts_with p s)
         [''172.16.'', ''172.17.'', ''172.18.'', ''172.19.'',
          ''172.20.'', ''172.21.'', ''172.22.'', ''172.23.'', ''172.24.'',
          ''172.25.'', ''172.26.'', ''172.27.'', ''172.28.'', ''172.29.'',
          ''172.30.'', ''172.31.'']"
      unfolding conj_disj_distribL ex_disj_distrib starts_with_172 by simp
    finally show ?thesis .
  qed
  have "\<not> exec_is_null private_ip_regex s \<longleftrightarrow>
        (\<exists>m. m \<in> set (rests (Alt (lit ''10'') (Alt (lit ''127'')
              (Alt (Seq (lit ''172.'') ?cls) (lit ''192.168'')))) s) \<and> ?tail m)"
    unfolding private_ip_regex_def by (rule regex_shape)
  also have "\<dots> \<longleftrightarrow> starts_with ''10.'' s \<or> starts_with ''127.'' s \<or>
       list_ex (\<lambda>p. starts_with p s)
         [''172.16.'', ''172.17.'', ''172.18.'', ''172.19.'',
          ''172.20.'', ''172.21.'', ''172.22.'', ''172.23.'', ''172.24.'',
          ''172.25.'', ''172.26.'', ''172.27.'', ''172.28.'', ''172.29.'',
          ''172.30.'', ''172.31.''] \<or> starts_with ''192.168.'' s"
    unfolding m10 [symmetric] m127 [symmetric] m172 [symmetric] m192 [symmetric] in_rests_Alt
    by blast
  also have "\<dots> \<longleftrightarrow> has_private_prefix s"
    unfolding has_private_prefix_def private_prefixes_def by simp
  finally show ?thesis .
qed

text \<open>
  Claim C8, as the code has it. The ICE server list of the agent's configuration is
  \<^verbatim>\<open>getIceServers(this.config.host)\<close>, and \<^verbatim>\<open>getIceServers\<close> decides on the spelling of the
  host: the list is empty exactly when the host begins with \<^verbatim>\<open>10.\<close>, \<^verbatim>\<open>127.\<close>,
  \<^verbatim>\<open>192.168.\<close> or \<^verbatim>\<open>172.N.\<close> for \<open>N\<close> from 16 to 31, and holds the two public STUN
  servers for every other host. For a host written as a dotted IPv4 address \<open>a.b.c.d\<close>
  (in decimal, without leading zeros) the list is therefore empty exactly when the
  address lies in 10/8, 127/8, 172.16/12 or 192.168/16.
\<close>

theorem getIceServers_by_prefix:
  "getIceServers host =
     (if has_private_prefix host then []
      else [\<lparr>urls = [''stun:stun.l.google.com:19302'', ''stun:stun4.l.google.com:19302'']\<rparr>]) \<and>
   has_private_prefix (dotted a b c d) = private_range a b \<and>
   iceServers (createRtcConfiguration host has_audio video_enabled) = getIceServers host"
proof -
  have "isAPrivateIp host \<longleftrightarrow> \<not> has_private_prefix host"
    unfolding isAPrivateIp_def using private_regex_prefix [of host] by blast
  then have g: "getIceServers host =
     (if has_private_prefix host then []
      else [\<lparr>urls = [''stun:stun.l.google.com:19302'', ''stun:stun4.l.google.com:19302'']\<rparr>])"
    by (simp add: getIceServers_def)
  have "dotted a b c d = dec a @ CHR ''.'' # dec b @ CHR ''.'' # (dec c @ ''.'' @ dec d)"
    by (simp add: dotted_def)
  then have "\<not> exec_is_null private_ip_regex (dotted a b c d) \<longleftrightarrow> private_range a b"
    using private_regex_on_dotted [of a b "dec c @ ''.'' @ dec d"] by metis
  then have d: "has_private_prefix (dotted a b c d) = private_range a b"
    using private_regex_prefix [of "dotted a b c d"] by blast
  show ?thesis using g d by (simp add: createRtcConfiguration_def)
qed

text \<open>
  Claim C8 as stated fails: the internal host \<^verbatim>\<open>localhost\<close> gets the public STUN servers,
  and the host name \<^verbatim>\<open>10.example.com\<close>, which says nothing about the network it is in,
  gets none.
\<close>

theorem internal_host_gets_stun:
  "iceServers (createRtcConfiguration ''localhost'' True False) =
     [\<lparr>urls = [''stun:stun.l.google.com:19302'', ''stun:stun4.l.google.com:19302'']\<rparr>] \<and>
   iceServers (createRtcConfiguration ''10.example.com'' True False) = []"
  by (simp add: createRtcConfiguration_def getIceServers_def isAPrivateIp_def exec_is_null_def
      private_ip_regex_def rests.simps lit.simps)

theorem getIceServers_by_prefix_witness:
  "iceServers (createRtcConfiguration ''192.168.1.10'' True False) = [] \<and>
   iceServers (createRtcConfiguration ''8.8.8.8'' True False) =
     [\<lparr>urls = [''stun:stun.l.google.com:19302'', ''stun:stun4.l.google.com:19302'']\<rparr>] \<and>
   has_private_prefix (dotted 172 16 0 1) \<and> \<not> has_private_prefix (dotted 172 32 0 1)"
  using getIceServers_by_prefix [of "''192.168.1.10''" 172 16 0 1 True False]
    getIceServers_by_prefix [of "''8.8.8.8''" 172 32 0 1 True False]
  by (simp add: has_private_prefix_def private_prefixes_def starts_with_def private_range_def)

section \<open>The registration retry loop\<close>

lemma run_append: "run (xs @ ys) s = run ys (run xs s)"
  by (induction xs arbitrary: s) auto

lemma reinit_initial: "reinit initial = waiting 0"
  by (simp add: reinit_def initial_def tryToRegister_def MAX_REGISTER_TRY_def setRegisterTimeout_def waiting_def)

lemma fire_waiting:
  assumes "Suc k < MAX_REGISTER_TRY"
  shows "step (TimerFires 0) (waiting k) = waiting (Suc k)"
  using assms
  by (simp add: waiting_def onTimer_def tryToRegister_def setRegisterTimeout_def)

lemma fire_last:
  assumes "Suc k = MAX_REGISTER_TRY"
  shows "step (TimerFires 0) (waiting k) = exhausted"
  using assms
  by (simp add: waiting_def onTimer_def tryToRegister_def clearTimeout_def exhausted_def Let_def)

lemma fire_exhausted: "step (TimerFires i) exhausted = exhausted"
  by (simp add: exhausted_def)

lemma run_fires_waiting:
  "k < MAX_REGISTER_TRY \<Longrightarrow> run (replicate k (TimerFires 0)) (waiting 0) = waiting k"
proof (induction k)
  case 0
  then show ?case by simp
next
  case (Suc k)
  then have "run (replicate k (TimerFires 0)) (waiting 0) = waiting k" by simp
  moreover have "replicate (Suc k) (TimerFires 0) = replicate k (TimerFires 0) @ [TimerFires 0]"
    by (simp add: replicate_append_same)
  ultimately show ?case using Suc.prems
    by (simp only: run_append run.simps fire_waiting)
qed

lemma run_fires_exhausted_aux: "run (replicate n (TimerFires 0)) exhausted = exhausted"
  by (induction n) (simp_all add: fire_exhausted del: step.simps)

lemma run_fires_exhausted:
  "run (replicate (MAX_REGISTER_TRY + n) (TimerFires 0)) (waiting 0) = exhausted"
proof -
  obtain k where k: "MAX_REGISTER_TRY = Suc k" by (simp add: MAX_REGISTER_TRY_def)
  have "replicate (MAX_REGISTER_TRY + n) (TimerFires 0) =
        replicate k (TimerFires 0) @ [TimerFires 0] @ replicate n (TimerFires 0)"
    unfolding k by (simp add: replicate_add replicate_append_same)
  moreover have "run (replicate k (TimerFires 0)) (waiting 0) = waiting k"
    using k by (intro run_fires_waiting) simp
  moreover have "step (TimerFires 0) (waiting k) = exhausted" using k by (intro fire_last) simp
  ultimately show ?thesis
    by (simp add: run_append run_fires_exhausted_aux del: step.simps)
qed

text \<open>
  Claim C3. When the try counter has reached \<^verbatim>\<open>MAX_REGISTER_TRY\<close> (200),
  \<^verbatim>\<open>_tryToRegister\<close> schedules nothing, calls the completion callback once with the
  failure flag true and clears \<^verbatim>\<open>registering\<close>; and a loop started by \<^verbatim>\<open>reinit()\<close> on a
  new client whose attempts all fail ends after 200 attempts with the callback called
  exactly once, with true, however many more timer slots pass.
\<close>

theorem retry_loop_stops_at_max:
  "(\<forall>s :: registration. MAX_REGISTER_TRY \<le> registerTries s \<longrightarrow>
        cbCalls (tryToRegister s) = cbCalls s @ [True] \<and>
        \<not> registering (tryToRegister s) \<and>
        delays (tryToRegister s) = delays s \<and>
        set (timers (tryToRegister s)) \<subseteq> set (timers s)) \<and>
   (\<forall>n. let s = run (Reinit # replicate (MAX_REGISTER_TRY + n) (TimerFires 0)) initial
        in registerTries s = MAX_REGISTER_TRY \<and> cbCalls s = [True] \<and> \<not> registering s \<and>
           timers s = [] \<and> length (delays s) = MAX_REGISTER_TRY \<and> attempts s = MAX_REGISTER_TRY)"
proof (intro conjI allI impI)
  fix s :: registration
  assume m: "MAX_REGISTER_TRY \<le> registerTries s"
  show "cbCalls (tryToRegister s) = cbCalls s @ [True]"
    using m by (simp add: tryToRegister_def clearTimeout_def Let_def split: option.splits)
  show "\<not> registering (tryToRegister s)"
    using m by (simp add: tryToRegister_def clearTimeout_def Let_def split: option.splits)
  show "delays (tryToRegister s) = delays s"
    using m by (simp add: tryToRegister_def clearTimeout_def Let_def split: option.splits)
  show "set (timers (tryToRegister s)) \<subseteq> set (timers s)"
    using m by (auto simp add: tryToRegister_def clearTimeout_def Let_def split: option.splits)
next
  fix n
  have "run (Reinit # replicate (MAX_REGISTER_TRY + n) (TimerFires 0)) initial = exhausted"
    using run_fires_exhausted [of n] by (simp add: reinit_initial)
  then show "let s = run (Reinit # replicate (MAX_REGISTER_TRY + n) (TimerFires 0)) initial
        in registerTries s = MAX_REGISTER_TRY \<and> cbCalls s = [True] \<and> \<not> registering s \<and>
           timers s = [] \<and> length (delays s) = MAX_REGISTER_TRY \<and> attempts s = MAX_REGISTER_TRY"
    by (simp add: exhausted_def)
qed

theorem retry_loop_stops_at_max_witness:
  "MAX_REGISTER_TRY \<le> registerTries exhausted \<and>
   cbCalls (tryToRegister exhausted) = [True, True] \<and>
   \<not> registering (tryToRegister exhausted) \<and>
   cbCalls (run (Reinit # replicate (MAX_REGISTER_TRY + 0) (TimerFires 0)) initial) = [True] \<and>
   timers (run (Reinit # replicate (MAX_REGISTER_TRY + 0) (TimerFires 0)) initial) = []"
proof -
  have m: "MAX_REGISTER_TRY \<le> registerTries exhausted" by (simp add: exhausted_def)
  note general = retry_loop_stops_at_max [THEN conjunct1, rule_format, OF m]
  note closed_run = retry_loop_stops_at_max [THEN conjunct2, rule_format, of 0]
  show ?thesis using m general closed_run by (simp add: Let_def exhausted_def)
qed

text \<open>
  Claim C4. In the loop started from \<^verbatim>\<open>registerTries = 0\<close>, the delay scheduled after the
  \<open>k\<close>-th failed attempt, before attempt \<open>k + 1\<close>, is \<open>1500 * k\<close> milliseconds, the first
  attempt being delayed by 0: after \<^verbatim>\<open>reinit()\<close> and \<open>n\<close> failed attempts the delays passed to
  \<^verbatim>\<open>setTimeout\<close> are \<open>0, 1500, ..., 1500 * n\<close>, cut at the 200 attempts the loop makes.
\<close>

theorem retry_delays_linear:
  "delays (run (Reinit # replicate n (TimerFires 0)) initial) =
     map (\<lambda>k. 1500 * k) [0 ..< min (Suc n) MAX_REGISTER_TRY]"
proof (cases "n < MAX_REGISTER_TRY")
  case True
  then have "run (Reinit # replicate n (TimerFires 0)) initial = waiting n"
    by (simp add: reinit_initial run_fires_waiting)
  moreover have "min (Suc n) MAX_REGISTER_TRY = Suc n" using True by simp
  ultimately show ?thesis by (simp add: waiting_def del: upt_Suc)
next
  case False
  then obtain m where "n = MAX_REGISTER_TRY + m" by (metis le_add_diff_inverse not_less)
  then have "run (Reinit # replicate n (TimerFires 0)) initial = exhausted"
    using run_fires_exhausted [of m] by (simp add: reinit_initial)
  moreover have "min (Suc n) MAX_REGISTER_TRY = MAX_REGISTER_TRY" using False by simp
  ultimately show ?thesis by (simp add: exhausted_def)
qed

theorem retry_delays_linear_witness:
  "delays (run (Reinit # replicate 3 (TimerFires 0)) initial) = [0, 1500, 3000, 4500]"
proof -
  have "[0 ..< min (Suc 3) MAX_REGISTER_TRY] = [0, 1, 2, 3]"
    by (simp add: MAX_REGISTER_TRY_def upt_rec)
  then show ?thesis using retry_delays_linear [of 3] by simp
qed

lemma inv_tryToRegister:
  assumes "registering s" "timers s = []"
  shows "reg_inv (tryToRegister s)"
  using assms
  by (simp add: reg_inv_def tryToRegister_def setRegisterTimeout_def clearTimeout_def Let_def
      split: option.splits)

lemma inv_reinit: "reg_inv s \<Longrightarrow> reg_inv (reinit s)"
proof (cases "registering s")
  case True
  assume "reg_inv s" with True show ?thesis by (simp add: reinit_def)
next
  case False
  assume "reg_inv s"
  with False have "timers s = []" by (simp add: reg_inv_def)
  then have "reg_inv (tryToRegister (s\<lparr>registering := True, registerTries := 0, registered := False\<rparr>))"
    by (intro inv_tryToRegister) simp_all
  with False show ?thesis by (simp add: reinit_def)
qed

lemma only_timer:
  assumes "reg_inv s" "i < length (timers s)"
  shows "registering s" "take i (timers s) @ drop (Suc i) (timers s) = []"
proof -
  from assms show r: "registering s" by (auto simp: reg_inv_def split: if_splits)
  with assms have "length (timers s) = 1" "i = 0" by (auto simp: reg_inv_def)
  then show "take i (timers s) @ drop (Suc i) (timers s) = []" by simp
qed

lemma inv_step: "reg_inv s \<Longrightarrow> reg_inv (step e s)"
proof (cases e)
  case Reinit
  assume "reg_inv s" then show ?thesis using Reinit by (simp add: inv_reinit)
next
  case Unregister
  assume "reg_inv s" then show ?thesis using Unregister by (auto simp: reg_inv_def split: if_splits)
next
  case (TimerFires i)
  assume i: "reg_inv s"
  show ?thesis
  proof (cases "i < length (timers s)")
    case True
    note r = only_timer [OF i True]
    have "step e s = onTimer (s\<lparr>timers := []\<rparr>)"
      unfolding TimerFires using True by (simp only: step.simps if_True r(2))
    moreover have "reg_inv (tryToRegister (s\<lparr>timers := [], attempts := Suc (attempts s), registerTries := Suc (registerTries s)\<rparr>))"
      using r(1) by (intro inv_tryToRegister) simp_all
    ultimately show ?thesis by (simp add: onTimer_def)
  next
    case False
    then show ?thesis using TimerFires i by simp
  qed
next
  case (TimerThrows i)
  assume i: "reg_inv s"
  show ?thesis
  proof (cases "i < length (timers s)")
    case True
    note r = only_timer [OF i True]
    have "step e s = s\<lparr>timers := []\<rparr>"
      unfolding TimerThrows using True by (simp only: step.simps if_True r(2))
    then show ?thesis by (simp add: reg_inv_def)
  next
    case False
    then show ?thesis using TimerThrows i by simp
  qed
next
  case Registered
  assume "reg_inv s" then show ?thesis using Registered by (auto simp: reg_inv_def split: if_splits)
next
  case Disconnected
  assume "reg_inv s"
  then have "reg_inv (s\<lparr>registered := False\<rparr>)" by (auto simp: reg_inv_def split: if_splits)
  then show ?thesis using Disconnected by (simp add: inv_reinit)
qed

lemma inv_run: "reg_inv s \<Longrightarrow> reg_inv (run es s)"
  by (induction es arbitrary: s) (simp_all add: inv_step del: step.simps)

lemma inv_initial: "reg_inv initial"
  by (simp add: reg_inv_def initial_def)

text \<open>
  Claim C5. At every moment at most one retry timer is pending, whatever the sequence
  of \<^verbatim>\<open>reinit()\<close> and \<^verbatim>\<open>unregister()\<close> calls, timer firings, \<^verbatim>\<open>registered\<close> and
  \<^verbatim>\<open>disconnected\<close> events since construction; \<^verbatim>\<open>reinit()\<close> is a no-op while \<^verbatim>\<open>registering\<close> is set, and otherwise resets
  \<^verbatim>\<open>registerTries\<close> to 0 and \<^verbatim>\<open>registered\<close> to false, sets \<^verbatim>\<open>registering\<close> and schedules
  the first attempt.
\<close>

theorem single_retry_loop:
  "length (timers (run es initial)) \<le> 1 \<and>
   (registering s \<longrightarrow> reinit s = s) \<and>
   (\<not> registering s \<longrightarrow>
      registerTries (reinit s) = 0 \<and> \<not> registered (reinit s) \<and> registering (reinit s) \<and>
      timers (reinit s) = timers s @ [(nextHandle s, 0)])"
proof -
  have "reg_inv (run es initial)" using inv_initial by (rule inv_run)
  then have "length (timers (run es initial)) \<le> 1" by (simp add: reg_inv_def split: if_splits)
  moreover have "registering s \<longrightarrow> reinit s = s" by (simp add: reinit_def)
  moreover have "\<not> registering s \<longrightarrow>
      registerTries (reinit s) = 0 \<and> \<not> registered (reinit s) \<and> registering (reinit s) \<and>
      timers (reinit s) = timers s @ [(nextHandle s, 0)]"
    by (simp add: reinit_def tryToRegister_def setRegisterTimeout_def MAX_REGISTER_TRY_def)
  ultimately show ?thesis by blast
qed

theorem single_retry_loop_witness:
  "length (timers (run [Reinit, Reinit, TimerFires 0, Disconnected, Unregister, Reinit] initial)) \<le> 1 \<and>
   registering (waiting 0) \<and> reinit (waiting 0) = waiting 0 \<and>
   \<not> registering initial \<and> registerTries (reinit initial) = 0 \<and>
   \<not> registered (reinit initial) \<and> registering (reinit initial) \<and>
   timers (reinit initial) = [(1, 0)]"
proof -
  have a: "registering (waiting 0)" by (simp add: waiting_def)
  have b: "\<not> registering initial" by (simp add: initial_def)
  note w1 = single_retry_loop [of "[Reinit, Reinit, TimerFires 0, Disconnected, Unregister, Reinit]" "waiting 0"]
  note w2 = single_retry_loop [of "[]" initial]
  show ?thesis using a b w1 w2 by (simp add: initial_def)
qed

section \<open>Camera, invitations, hangup\<close>

lemmas action_defs = andThen_def ok_def throw_def perform_def promise_def

lemma foldl_setEnabled:
  "foldl (setEnabled v) w ts =
     w\<lparr>enabled := (\<lambda>i. if i \<in> trackId ` set ts then v else enabled w i)\<rparr>"
proof (induction ts arbitrary: w)
  case Nil
  then show ?case by simp
next
  case (Cons t ts)
  have f: "(\<lambda>i. if i \<in> trackId ` set ts then v else enabled (setEnabled v w t) i) =
           (\<lambda>i. if i \<in> trackId ` set (t # ts) then v else enabled w i)"
    by (rule ext) (auto simp: setEnabled_def)
  have u: "(setEnabled v w t)\<lparr>enabled := g\<rparr> = w\<lparr>enabled := g\<rparr>" for g
    by (simp add: setEnabled_def)
  have "foldl (setEnabled v) w (t # ts) = foldl (setEnabled v) (setEnabled v w t) ts" by simp
  also have "\<dots> = (setEnabled v w t)\<lparr>enabled :=
               (\<lambda>i. if i \<in> trackId ` set ts then v else enabled (setEnabled v w t) i)\<rparr>"
    by (rule Cons.IH)
  also have "\<dots> = w\<lparr>enabled := (\<lambda>i. if i \<in> trackId ` set (t # ts) then v else enabled w i)\<rparr>"
    by (simp only: f u)
  finally show ?case .
qed

text \<open>
  Claim C1, as the code has it. For a session that has a session description handler
  with a peer connection, \<^verbatim>\<open>toggleCameraOn\<close> sets \<^verbatim>\<open>enabled\<close> to true on each outgoing
  video track and \<^verbatim>\<open>toggleCameraOff\<close> sets it to false (the mapping is not inverted);
  both leave every other track and the rest of the client as they were, so that no call
  is made on the session and no renegotiation is issued.
\<close>

theorem toggleCamera_mapping:
  assumes "sessionDescriptionHandler session = Some (Some pc)"
  shows "toggleCameraOn session w =
           (Inr (), w\<lparr>enabled := (\<lambda>i. if i \<in> trackId ` set (outgoingVideoTracks pc)
                                         then True else enabled w i)\<rparr>) \<and>
         toggleCameraOff session w =
           (Inr (), w\<lparr>enabled := (\<lambda>i. if i \<in> trackId ` set (outgoingVideoTracks pc)
                                          then False else enabled w i)\<rparr>)"
  using assms
  by (simp add: toggleCameraOn_def toggleCameraOff_def toggleVideo_def outgoingVideoTracks_def
      foldl_setEnabled ok_def split: option.splits)

text \<open>
  Claim C1 as stated fails: on a call whose video track is disabled,
  \<^verbatim>\<open>toggleCameraOn\<close> leaves the track enabled, and \<^verbatim>\<open>toggleCameraOff\<close> disables an enabled
  one.
\<close>

theorem toggleCameraOn_enables:
  "enabled (snd (toggleCameraOn videoCall darkClient)) 1 \<and>
   \<not> enabled (snd (toggleCameraOff videoCall webClient)) 1"
  by (simp add: toggleCameraOn_def toggleCameraOff_def toggleVideo_def videoCall_def
      plainSession_def plainConnection_def videoConnection_def darkClient_def webClient_def senderTracks_def
      setEnabled_def ok_def)

theorem toggleCamera_mapping_witness:
  "sessionDescriptionHandler videoCall \<noteq> None \<and>
   enabled (snd (toggleCameraOn videoCall darkClient)) 1 \<and>
   \<not> enabled (snd (toggleCameraOn videoCall darkClient)) 0 \<and>
   effects (snd (toggleCameraOn videoCall darkClient)) = [] \<and>
   \<not> enabled (snd (toggleCameraOff videoCall webClient)) 1 \<and>
   enabled (snd (toggleCameraOff videoCall webClient)) 0"
proof -
  have h: "sessionDescriptionHandler videoCall = Some (Some videoConnection)"
    by (simp add: videoCall_def plainSession_def)
  have v: "outgoingVideoTracks videoConnection = [\<lparr>trackId = 1, kind = Video\<rparr>]"
    by (simp add: outgoingVideoTracks_def senderTracks_def plainConnection_def videoConnection_def)
  show ?thesis
    using h toggleCamera_mapping [OF h, of darkClient] toggleCamera_mapping [OF h, of webClient]
    unfolding v by (simp add: darkClient_def webClient_def)
qed

text \<open>
  Claim C10, as the code has it. For an inbound invitation with a request, the third
  argument of the emitted \<^verbatim>\<open>invite\<close> event is true exactly when \<^verbatim>\<open>getHeader('alert-info')\<close>
  yields a non-empty value.
\<close>

theorem invite_autoAnswer_flag:
  assumes "request session = Some rq"
  shows "onInvite session w =
           (Inr (), w\<lparr>emitted := emitted w @
              [InviteEmitted (getSipSessionId (Some session)) (sessionWantsToDoVideo rq)
                 (\<exists>v. getHeader rq ''alert-info'' = Some v \<and> v \<noteq> [])]\<rparr>)"
  using assms by (simp add: onInvite_def truthy_def ok_def split: option.splits)

text \<open>
  Claim C10 as stated fails: a request that carries an \<^verbatim>\<open>alert-info\<close> header with an
  empty value is announced with \<^verbatim>\<open>shouldAutoAnswer\<close> false.
\<close>

theorem invite_empty_alert_info:
  "getHeader emptyAlertRequest ''alert-info'' \<noteq> None \<and>
   request emptyAlertInvite = Some emptyAlertRequest \<and>
   emitted (snd (onInvite emptyAlertInvite webClient)) = [InviteEmitted ''call-3'' False False]"
  by (simp add: onInvite_def emptyAlertInvite_def emptyAlertRequest_def getHeader_def
      plainSession_def webClient_def truthy_def ok_def getSipSessionId_def js_or_def
      sessionWantsToDoVideo_def lit.simps rests.simps)

theorem invite_autoAnswer_flag_witness:
  "request autoAnswerInvite = Some autoAnswerRequest \<and>
   emitted (snd (onInvite autoAnswerInvite webClient)) = [InviteEmitted ''call-4'' False True]"
proof -
  have r: "request autoAnswerInvite = Some autoAnswerRequest"
    by (simp add: autoAnswerInvite_def)
  have v: "sessionWantsToDoVideo autoAnswerRequest = False"
    by (simp add: sessionWantsToDoVideo_def autoAnswerRequest_def lit.simps rests.simps)
  show ?thesis
    using r invite_autoAnswer_flag [OF r, of webClient] v
    by (simp add: webClient_def getSipSessionId_def autoAnswerInvite_def js_or_def truthy_def
        autoAnswerRequest_def getHeader_def)
qed

lemma removeFromMerge_frame:
  "removeFromMerge s b w = (v, w') \<Longrightarrow>
     audioElements w' = audioElements w \<and> hasAudio w' = hasAudio w \<and> isWeb w' = isWeb w \<and>
     filter isInvoke (effects w') = filter isInvoke (effects w)"
  by (auto simp: removeFromMerge_def Let_def action_defs connect_def disconnect_def
      deleteAudioStream_def split: option.splits if_splits)

lemma cleanupMedia_missing:
  assumes "hasAudio w" "isWeb w" "audioElements w (getSipSessionId (Some s)) = None"
  shows "\<exists>w'. cleanupMedia (Some s) w = (Inl TypeError, w') \<and> effects w' = effects w"
  using assms by (simp add: cleanupMedia_def cleanAudio_def Let_def throw_def)

lemma cleanupMedia_result:
  assumes "hasAudio w" "isWeb w"
  shows "\<exists>w'. effects w' = effects w \<and> hasAudio w' \<and> isWeb w' \<and>
           audioElements w' (getSipSessionId (Some s)) = None \<and>
           (cleanupMedia (Some s) w = (Inl TypeError, w') \<or> cleanupMedia (Some s) w = (Inr (), w'))"
  using assms
  by (cases "audioElements w (getSipSessionId (Some s))")
     (simp_all add: cleanupMedia_def cleanAudio_def Let_def throw_def ok_def)

text \<open>
  In a browser with audio, \<^verbatim>\<open>hangup\<close> calls no method of the session at all: the second
  \<^verbatim>\<open>_cleanupMedia(session)\<close> of its body (or already the first, when the session has no
  audio element) finds no element, \<^verbatim>\<open>element.pause()\<close> throws, and the \<^verbatim>\<open>catch\<close> logs the
  error. The termination logic is reached only where \<^verbatim>\<open>_cleanupMedia\<close> skips the audio
  elements: without audio, or outside a browser.
\<close>

lemma hangup_in_browser_with_audio:
  assumes "hasAudio w" "isWeb w"
  shows "filter isInvoke (effects (hangup s w)) = filter isInvoke (effects w) \<and>
         last (effects (hangup s w)) = ConsoleWarn"
proof -
  let ?sid = "getSipSessionId (Some s)"
  let ?mid = "\<lambda>w. if inAudioStreams ?sid w
                    then andThen (removeFromMerge s True) (\<lambda>_. ok ()) w else ok () w"
  obtain w1 where f1: "effects w1 = effects w" "hasAudio w1" "isWeb w1"
      "audioElements w1 ?sid = None"
    and c1: "cleanupMedia (Some s) w = (Inl TypeError, w1) \<or> cleanupMedia (Some s) w = (Inr (), w1)"
    using cleanupMedia_result [OF assms] by blast
  obtain v2 w2 where m: "?mid w1 = (v2, w2)" by (cases "?mid w1") blast
  have f2: "audioElements w2 = audioElements w1" "hasAudio w2 = hasAudio w1" "isWeb w2 = isWeb w1"
      "filter isInvoke (effects w2) = filter isInvoke (effects w1)"
    using m removeFromMerge_frame [of s True w1]
    by (auto simp: andThen_def ok_def split: if_splits prod.splits sum.splits)
  have c2: "\<exists>w3. cleanupMedia (Some s) w2 = (Inl TypeError, w3) \<and> effects w3 = effects w2"
    using f1 f2 by (intro cleanupMedia_missing) simp_all
  have "\<exists>e w'. hangupBody s w = (Inl e, w') \<and>
          filter isInvoke (effects w') = filter isInvoke (effects w)"
  proof (cases "cleanupMedia (Some s) w = (Inl TypeError, w1)")
    case True
    then show ?thesis using f1 by (simp add: hangupBody_def Let_def andThen_def)
  next
    case False
    with c1 have ok1: "cleanupMedia (Some s) w = (Inr (), w1)" by simp
    show ?thesis
    proof (cases v2)
      case (Inl e)
      then show ?thesis using ok1 m f1 f2
        by (simp add: hangupBody_def Let_def andThen_def)
    next
      case (Inr u)
      obtain w3 where "cleanupMedia (Some s) w2 = (Inl TypeError, w3)" "effects w3 = effects w2"
        using c2 by blast
      then show ?thesis using ok1 m Inr f1 f2
        by (simp add: hangupBody_def Let_def andThen_def)
    qed
  qed
  then show ?thesis by (auto simp: hangup_def)
qed

text \<open>
  Claim C2 at a failing input. On a non-browser platform, \<^verbatim>\<open>hangup\<close> of an answered
  outbound call whose status is \<^verbatim>\<open>STATUS_TERMINATED\<close> calls the session's \<^verbatim>\<open>bye()\<close>: the
  \<^verbatim>\<open>null\<close> that \<^verbatim>\<open>actions\<close> holds for the status fails the truthiness test, and the code
  below the test runs.
\<close>

theorem hangup_terminated_sends_bye:
  "status terminatedCall = STATUS_TERMINATED \<and>
   effects (hangup terminatedCall mobileClient) = [Invoke ''call-2'' Bye]"
  by (simp add: hangup_def hangupBody_def terminatedCall_def plainSession_def mobileClient_def
      webClient_def cleanupMedia_def getSipSessionId_def js_or_def truthy_def andThen_def ok_def
      actions_def invoke_def perform_def inAudioStreams_def objectPrototypeNames_def Let_def)

text \<open>
  The operator \<^verbatim>\<open>in\<close> also finds inherited names: for a session whose identifier is
  \<^verbatim>\<open>constructor\<close>, \<^verbatim>\<open>hangup\<close> calls \<^verbatim>\<open>removeFromMerge\<close> although nothing was merged, the
  function found under that name has no \<^verbatim>\<open>localAudioSource\<close>, the call of \<^verbatim>\<open>disconnect\<close>
  on it throws, and \<^verbatim>\<open>hangup\<close> logs the error without calling a method of the session.
\<close>

lemma hangup_inherited_name:
  "inAudioStreams (getSipSessionId (Some constructorCall)) mobileClient \<and>
   fst (removeFromMerge constructorCall True mobileClient) = Inl TypeError \<and>
   effects (hangup constructorCall mobileClient) = [ConsoleWarn]"
  by (simp add: hangup_def hangupBody_def constructorCall_def plainSession_def mobileClient_def
      webClient_def cleanupMedia_def getSipSessionId_def js_or_def truthy_def andThen_def ok_def
      throw_def removeFromMerge_def getAudioStream_def destructure_def inAudioStreams_def
      objectPrototypeNames_def Let_def)

text \<open>
  Claim C9 at a failing input. With the number of sessions equal to
  \<^verbatim>\<open>MAX_MERGE_SESSIONS\<close>, hence not above it, \<^verbatim>\<open>_checkMaxMergeSessions\<close> logs the warning:
  \<^verbatim>\<open>merge\<close> of four sessions starts with it, \<^verbatim>\<open>merge\<close> of three logs none.
\<close>

theorem warning_at_maximum:
  "checkMaxMergeSessions MAX_MERGE_SESSIONS w = (Inr (), w\<lparr>effects := effects w @ [ConsoleWarn]\<rparr>) \<and>
   length fourCalls = MAX_MERGE_SESSIONS \<and>
   hd (effects (snd (merge fourCalls webClient))) = ConsoleWarn \<and>
   ConsoleWarn \<notin> set (effects (snd (merge threeCalls webClient)))"
proof -
  have "checkMaxMergeSessions MAX_MERGE_SESSIONS w = (Inr (), w\<lparr>effects := effects w @ [ConsoleWarn]\<rparr>)"
    by (simp add: checkMaxMergeSessions_def perform_def)
  moreover have "length fourCalls = MAX_MERGE_SESSIONS"
    by (simp add: fourCalls_def threeCalls_def MAX_MERGE_SESSIONS_def)
  moreover have "hd (effects (snd (merge fourCalls webClient))) = ConsoleWarn"
    by (simp add: fourCalls_def threeCalls_def merge_def addToMerge_def bindStreams_def
        addAudioStream_def checkMaxMergeSessions_def MAX_MERGE_SESSIONS_def action_defs
        plainSession_def plainConnection_def webClient_def getSipSessionId_def js_or_def
        truthy_def getLocalStream_def getRemoteStream_def tracksOf_def streamRefOf_def
        connect_def Let_def)
  moreover have "ConsoleWarn \<notin> set (effects (snd (merge threeCalls webClient)))"
    by (simp add: threeCalls_def merge_def addToMerge_def bindStreams_def
        addAudioStream_def checkMaxMergeSessions_def MAX_MERGE_SESSIONS_def action_defs
        plainSession_def plainConnection_def webClient_def getSipSessionId_def js_or_def
        truthy_def getLocalStream_def getRemoteStream_def tracksOf_def streamRefOf_def
        connect_def Let_def)
  ultimately show ?thesis by blast
qed

section \<open>Adding to and removing from a merge\<close>

lemma addAudioStream_frame:
  "addAudioStream st w = (v, w') \<Longrightarrow>
     audioStreams w' = audioStreams w \<and> audioStreamsProto w' = audioStreamsProto w \<and>
     mergeDestination w' = mergeDestination w \<and>
     audioContext w' = audioContext w \<and> isWeb w' = isWeb w \<and> firefox w' = firefox w \<and>
     nextNode w \<le> nextNode w' \<and> effects w' = effects w"
  by (auto simp: addAudioStream_def ok_def connect_def Let_def split: if_splits option.splits)

lemma addAudioStream_some:
  "audioContext w \<Longrightarrow> st \<noteq> None \<Longrightarrow>
     \<exists>w'. addAudioStream st w = (Inr (Some (nextNode w)), w') \<and> nextNode w' = Suc (nextNode w)"
  by (auto simp: addAudioStream_def ok_def connect_def Let_def split: option.splits)

lemma addAudioStream_result:
  "\<exists>v w'. addAudioStream st w = (Inr v, w')"
  by (auto simp: addAudioStream_def ok_def connect_def Let_def split: option.splits)

lemma checkMaxMergeSessions_frame:
  "\<exists>w0. checkMaxMergeSessions n w = (Inr (), w0) \<and>
     audioStreams w0 = audioStreams w \<and> audioStreamsProto w0 = audioStreamsProto w \<and>
     mergeDestination w0 = mergeDestination w \<and>
     audioContext w0 = audioContext w \<and> isWeb w0 = isWeb w \<and> firefox w0 = firefox w \<and>
     nextNode w0 = nextNode w \<and> connections w0 = connections w"
  by (simp add: checkMaxMergeSessions_def ok_def perform_def)

lemma addToMerge_mergeable:
  assumes "audioContext w" "mergeable w session"
  shows "\<exists>r w'. addToMerge session w = (Inr (BindThen session (Some (nextNode w)) r), w') \<and>
           audioStreams w' = audioStreams w \<and> mergeDestination w' = mergeDestination w \<and>
           audioContext w' \<and> isWeb w' = isWeb w \<and> firefox w' = firefox w \<and>
           nextNode w < nextNode w' \<and> audioStreamsProto w' = audioStreamsProto w"
proof -
  from assms(2) obtain pc where pc: "sessionDescriptionHandler session = Some (Some pc)"
    "getLocalStream pc \<noteq> None" and nh: "\<not> (localHold session \<and> \<not> (isWeb w \<and> firefox w))"
    by (auto simp: mergeable_def split: option.splits)
  obtain w0 where c: "checkMaxMergeSessions (length (audioStreams w) + 1) w = (Inr (), w0)"
    and f0: "audioStreams w0 = audioStreams w" "mergeDestination w0 = mergeDestination w"
      "audioContext w0" "isWeb w0 = isWeb w" "firefox w0 = firefox w" "nextNode w0 = nextNode w"
      "audioStreamsProto w0 = audioStreamsProto w"
    using assms(1) checkMaxMergeSessions_frame [of "length (audioStreams w) + 1" w] by auto
  obtain w1 where a1: "addAudioStream (getLocalStream pc) w0 = (Inr (Some (nextNode w)), w1)"
    and n1: "nextNode w1 = Suc (nextNode w)"
    using addAudioStream_some [OF f0(3) pc(2)] f0(6) by auto
  note f1 = addAudioStream_frame [OF a1]
  obtain r w2 where a2: "addAudioStream (getRemoteStream pc) w1 = (Inr r, w2)"
    using addAudioStream_result by blast
  note f2 = addAudioStream_frame [OF a2]
  have "\<exists>w'. bindStreams session (Some pc) (getRemoteStream pc) w0 =
            (Inr (BindThen session (Some (nextNode w)) r), w') \<and>
           audioStreams w' = audioStreams w2 \<and> mergeDestination w' = mergeDestination w2 \<and>
           audioContext w' = audioContext w2 \<and> isWeb w' = isWeb w2 \<and> firefox w' = firefox w2 \<and>
           nextNode w' = nextNode w2 \<and> audioStreamsProto w' = audioStreamsProto w2"
    using a1 a2
    by (simp add: bindStreams_def Let_def action_defs split: option.splits)
  then show ?thesis
    using c pc nh f0 f1 f2 n1
    by (auto simp: addToMerge_def andThen_def)
qed


lemma runTask_BindThen:
  "getSipSessionId (Some session) \<noteq> ''__proto__'' \<Longrightarrow>
   runTask (BindThen session l r) w =
     (Inr (), w\<lparr>audioStreams := AList.update (getSipSessionId (Some session))
                   \<lparr>localAudioSource = l, remoteAudioSource = r\<rparr> (audioStreams w),
                 effects := effects w @ [SetLocalDescription (getSipSessionId (Some session))]\<rparr>)"
  by (simp add: runTask_def action_defs setAudioStream_def)

lemma getAudioStream_own:
  "map_of (audioStreams w) k = Some e \<Longrightarrow> getAudioStream w k = Entry e"
  by (simp add: getAudioStream_def)


lemma removeFromMerge_present:
  assumes "audioContext w" "sessionDescriptionHandler session = Some (Some pc)" "\<not> closed pc"
    and "map_of (audioStreams w) (getSipSessionId (Some session)) =
           Some \<lparr>localAudioSource = Some l, remoteAudioSource = r\<rparr>"
  shows "\<exists>w'. removeFromMerge session sh w = (Inr (RemoveThen session sh), w') \<and>
           audioStreams w' = AList.delete (getSipSessionId (Some session)) (audioStreams w) \<and>
           mergeDestination w' = mergeDestination w \<and> audioContext w' \<and>
           isWeb w' = isWeb w \<and> firefox w' = firefox w \<and> nextNode w' = Suc (nextNode w) \<and>
           (l, nextNode w) \<in> connections w' \<and>
           (\<forall>x. r = Some x \<longrightarrow> (x, nextNode w) \<in> connections w') \<and>
           (\<forall>d. mergeDestination w = Some d \<longrightarrow> d \<noteq> nextNode w \<longrightarrow>
                (l, d) \<notin> connections w' \<and> (\<forall>x. r = Some x \<longrightarrow> (x, d) \<notin> connections w')) \<and>
           audioStreamsProto w' = audioStreamsProto w \<and>
           effects w' = effects w @
             (case mergeDestination w of
                Some d \<Rightarrow> [RemoveStream (getSipSessionId (Some session)) (DestinationStream d)]
              | None \<Rightarrow> []) @
             [AddStream (getSipSessionId (Some session)) (DestinationStream (nextNode w)),
              CreateOffer (getSipSessionId (Some session))]"
  using assms getAudioStream_own [OF assms(4)]
  by (cases r; cases "mergeDestination w")
     (simp_all add: removeFromMerge_def Let_def action_defs connect_def disconnect_def
        destructure_def deleteAudioStream_def)



text \<open>
  Why the identifier \<^verbatim>\<open>__proto__\<close> is set apart: the callback of \<^verbatim>\<open>addToMerge\<close> then makes
  the entry the prototype of the table and stores no key, \<^verbatim>\<open>removeFromMerge\<close> finds the
  entry through the getter of \<^verbatim>\<open>__proto__\<close>, and its \<^verbatim>\<open>delete\<close> removes nothing: the
  entry is still found after the removal.
\<close>

lemma entry_stored_as_prototype:
  "fst (addThenRemove protoCall True mergingClient) = Inr (RemoveThen protoCall True) \<and>
   audioStreams (snd (addThenRemove protoCall True mergingClient)) = [] \<and>
   getAudioStream (snd (addThenRemove protoCall True mergingClient)) ''__proto__'' =
     Entry \<lparr>localAudioSource = Some 1, remoteAudioSource = Some 2\<rparr>"
  by (simp add: addThenRemove_def addToMerge_def bindStreams_def addAudioStream_def runTask_def
      removeFromMerge_def checkMaxMergeSessions_def MAX_MERGE_SESSIONS_def action_defs
      setAudioStream_def getAudioStream_def destructure_def deleteAudioStream_def
      protoCall_def plainSession_def plainConnection_def mergingClient_def webClient_def
      getSipSessionId_def js_or_def truthy_def getLocalStream_def getRemoteStream_def
      tracksOf_def streamRefOf_def connect_def disconnect_def closed_def Let_def)

subsection \<open>Where the condition on node numbers holds\<close>

text \<open>
  \<open>allocated\<close> holds of a client as constructed, and in a client with an audio context
  \<^verbatim>\<open>merge\<close> establishes it, whatever its sessions do: \<^verbatim>\<open>addToMerge\<close> leaves
  \<^verbatim>\<open>mergeDestination\<close> alone and only moves \<open>nextNode\<close> up.
\<close>

lemma toggleAudio_nodes:
  "toggleAudio s m w = (v, w') \<Longrightarrow>
     mergeDestination w' = mergeDestination w \<and> nextNode w' = nextNode w"
  by (auto simp: toggleAudio_def ok_def foldl_setEnabled split: option.splits)

lemma unhold_nodes:
  "unhold s w = (v, w') \<Longrightarrow> mergeDestination w' = mergeDestination w \<and> nextNode w' = nextNode w"
  by (auto simp: unhold_def unmute_def invoke_def action_defs
      dest!: toggleAudio_nodes split: prod.splits sum.splits option.splits outcome.splits)

lemma addAudioStream_nodes:
  "addAudioStream st w = (v, w') \<Longrightarrow>
     mergeDestination w' = mergeDestination w \<and> nextNode w \<le> nextNode w'"
  by (auto simp: addAudioStream_def ok_def connect_def Let_def split: if_splits option.splits)

lemma bindStreams_nodes:
  "bindStreams s pco st w = (v, w') \<Longrightarrow>
     mergeDestination w' = mergeDestination w \<and> nextNode w \<le> nextNode w'"
proof -
  assume b: "bindStreams s pco st w = (v, w')"
  show ?thesis
  proof (cases pco)
    case None
    with b show ?thesis by (simp add: bindStreams_def throw_def)
  next
    case (Some pc)
    obtain l w1 where a1: "addAudioStream (getLocalStream pc) w = (Inr l, w1)"
      using addAudioStream_result by blast
    obtain r w2 where a2: "addAudioStream st w1 = (Inr r, w2)"
      using addAudioStream_result by blast
    note n1 = addAudioStream_nodes [OF a1] and n2 = addAudioStream_nodes [OF a2]
    have "mergeDestination w' = mergeDestination w2 \<and> nextNode w' = nextNode w2"
      using b Some a1 a2
      by (auto simp: bindStreams_def Let_def action_defs split: option.splits if_splits)
    with n1 n2 show ?thesis by simp
  qed
qed

lemma addToMerge_nodes:
  "addToMerge s w = (v, w') \<Longrightarrow>
     mergeDestination w' = mergeDestination w \<and> nextNode w \<le> nextNode w'"
proof -
  assume a: "addToMerge s w = (v, w')"
  obtain w0 where c: "checkMaxMergeSessions (length (audioStreams w) + 1) w = (Inr (), w0)"
    and f0: "mergeDestination w0 = mergeDestination w" "nextNode w0 = nextNode w"
    using checkMaxMergeSessions_frame [of "length (audioStreams w) + 1" w] by auto
  show ?thesis
  proof (cases "sessionDescriptionHandler s")
    case None
    with a c f0 show ?thesis by (simp add: addToMerge_def andThen_def throw_def)
  next
    case (Some pco)
    show ?thesis
    proof (cases "localHold s \<and> \<not> (isWeb w0 \<and> firefox w0)")
      case True
      obtain u w1 where u: "unhold s w0 = (u, w1)" by (cases "unhold s w0") blast
      note unhold_nodes [OF u]
      moreover have "mergeDestination w' = mergeDestination w1 \<and> nextNode w' = nextNode w1"
        using a c Some True u by (cases u) (auto simp: addToMerge_def andThen_def ok_def)
      ultimately show ?thesis using f0 by simp
    next
      case False
      show ?thesis
      proof (cases pco)
        case None
        with a c f0 Some False show ?thesis by (auto simp: addToMerge_def andThen_def throw_def)
      next
        case (Some pc)
        with a c \<open>sessionDescriptionHandler s = Some pco\<close> False
        have "bindStreams s (Some pc) (getRemoteStream pc) w0 = (v, w')"
          by (auto simp: addToMerge_def andThen_def)
        from bindStreams_nodes [OF this] f0 show ?thesis by simp
      qed
    qed
  qed
qed

lemma mapA_addToMerge_nodes:
  "mapA addToMerge ss w = (v, w') \<Longrightarrow>
     mergeDestination w' = mergeDestination w \<and> nextNode w \<le> nextNode w'"
proof (induction ss arbitrary: w v w')
  case Nil
  then show ?case by (simp add: ok_def)
next
  case (Cons s ss)
  obtain u w1 where a: "addToMerge s w = (u, w1)" by (cases "addToMerge s w") blast
  note n1 = addToMerge_nodes [OF a]
  show ?case
  proof (cases u)
    case (Inl e)
    with Cons.prems a n1 show ?thesis by (simp add: andThen_def)
  next
    case (Inr t)
    obtain u2 w2 where m: "mapA addToMerge ss w1 = (u2, w2)" by (cases "mapA addToMerge ss w1") blast
    note n2 = Cons.IH [OF m]
    have "w' = w2" using Cons.prems a Inr m by (cases u2) (simp_all add: andThen_def ok_def)
    with n1 n2 show ?thesis by simp
  qed
qed

lemma merge_allocates:
  assumes "audioContext w" "merge ss w = (v, w')"
  shows "allocated w' \<and> mergeDestination w' \<noteq> None"
proof -
  obtain w0 where c: "checkMaxMergeSessions (length ss) w = (Inr (), w0)"
    and f0: "audioContext w0 = audioContext w"
    using checkMaxMergeSessions_frame [of "length ss" w] by auto
  define w1 where "w1 = w0\<lparr>mergeDestination := Some (nextNode w0), nextNode := Suc (nextNode w0)\<rparr>"
  have "\<exists>w2. (if audioContext w1 \<and> contextSuspended w1 then perform ResumeContext w1 else ok () w1) = (Inr (), w2) \<and>
          mergeDestination w2 = mergeDestination w1 \<and> nextNode w2 = nextNode w1"
    by (simp add: perform_def ok_def)
  then obtain w2 where r: "(if audioContext w1 \<and> contextSuspended w1 then perform ResumeContext w1 else ok () w1) = (Inr (), w2)"
    and f2: "mergeDestination w2 = mergeDestination w1" "nextNode w2 = nextNode w1"
    by blast
  have "mapA addToMerge ss w2 = (v, w')"
    using assms c r f0 unfolding w1_def by (simp add: merge_def andThen_def ok_def)
  from mapA_addToMerge_nodes [OF this] f2 show ?thesis
    by (simp add: allocated_def w1_def)
qed

lemma allocated_webClient: "allocated webClient"
  by (simp add: allocated_def webClient_def)

section \<open>Merging and unmerging a list of sessions\<close>

lemma mergeable_cong:
  "isWeb w' = isWeb w \<Longrightarrow> firefox w' = firefox w \<Longrightarrow> mergeable w' s = mergeable w s"
  by (simp add: mergeable_def)

lemma mapA_addToMerge:
  assumes "audioContext w" "\<forall>s\<in>set ss. mergeable w s"
  shows "\<exists>ts w'. mapA addToMerge ss w = (Inr ts, w') \<and>
           list_all2 (\<lambda>s t. \<exists>l r. t = BindThen s (Some l) r) ss ts \<and>
           audioStreams w' = audioStreams w \<and> mergeDestination w' = mergeDestination w \<and>
           audioContext w' \<and> isWeb w' = isWeb w \<and> firefox w' = firefox w \<and>
           audioStreamsProto w' = audioStreamsProto w"
  using assms
proof (induction ss arbitrary: w)
  case Nil
  then show ?case by (simp add: ok_def)
next
  case (Cons s ss)
  then have m: "mergeable w s" by simp
  obtain r w1 where a: "addToMerge s w = (Inr (BindThen s (Some (nextNode w)) r), w1)"
    and f1: "audioStreams w1 = audioStreams w" "mergeDestination w1 = mergeDestination w"
      "audioContext w1" "isWeb w1 = isWeb w" "firefox w1 = firefox w"
      "audioStreamsProto w1 = audioStreamsProto w"
    using addToMerge_mergeable [OF Cons.prems(1) m] by blast
  have "\<forall>x\<in>set ss. mergeable w1 x"
    using Cons.prems(2) mergeable_cong [OF f1(4,5)] by simp
  from Cons.IH [OF f1(3) this]
  obtain ts w2 where b: "mapA addToMerge ss w1 = (Inr ts, w2)"
    and l: "list_all2 (\<lambda>s t. \<exists>l r. t = BindThen s (Some l) r) ss ts"
    and f2: "audioStreams w2 = audioStreams w1" "mergeDestination w2 = mergeDestination w1"
      "audioContext w2" "isWeb w2 = isWeb w1" "firefox w2 = firefox w1"
      "audioStreamsProto w2 = audioStreamsProto w1"
    by blast
  have "mapA addToMerge (s # ss) w = (Inr (BindThen s (Some (nextNode w)) r # ts), w2)"
    using a b by (simp add: andThen_def ok_def)
  then show ?case using l f1 f2 by simp
qed

lemma merge_mergeable:
  assumes "audioContext w" "\<forall>s\<in>set ss. mergeable w s"
  shows "\<exists>ts w'. merge ss w = (Inr ts, w') \<and>
           list_all2 (\<lambda>s t. \<exists>l r. t = BindThen s (Some l) r) ss ts \<and>
           audioStreams w' = audioStreams w \<and> audioContext w' \<and>
           audioStreamsProto w' = audioStreamsProto w"
proof -
  obtain w0 where c: "checkMaxMergeSessions (length ss) w = (Inr (), w0)"
    and f0: "audioStreams w0 = audioStreams w" "audioContext w0 = audioContext w"
      "isWeb w0 = isWeb w" "firefox w0 = firefox w" "audioStreamsProto w0 = audioStreamsProto w"
    using checkMaxMergeSessions_frame [of "length ss" w] by auto
  define w1 where "w1 = w0\<lparr>mergeDestination := Some (nextNode w0), nextNode := Suc (nextNode w0)\<rparr>"
  have "\<exists>w2. (if audioContext w1 \<and> contextSuspended w1 then perform ResumeContext w1 else ok () w1) = (Inr (), w2) \<and>
          audioStreams w2 = audioStreams w1 \<and> audioContext w2 = audioContext w1 \<and>
          isWeb w2 = isWeb w1 \<and> firefox w2 = firefox w1 \<and>
          audioStreamsProto w2 = audioStreamsProto w1"
    by (simp add: perform_def ok_def)
  then obtain w2 where r: "(if audioContext w1 \<and> contextSuspended w1 then perform ResumeContext w1 else ok () w1) = (Inr (), w2)"
    and f2: "audioStreams w2 = audioStreams w1" "audioContext w2 = audioContext w1"
      "isWeb w2 = isWeb w1" "firefox w2 = firefox w1" "audioStreamsProto w2 = audioStreamsProto w1"
    by blast
  have f1: "audioStreams w1 = audioStreams w0" "audioContext w1 = audioContext w0"
      "isWeb w1 = isWeb w0" "firefox w1 = firefox w0" "audioStreamsProto w1 = audioStreamsProto w0"
    by (simp_all add: w1_def)
  have ac: "audioContext w2" using assms(1) f0 f1 f2 by simp
  have "\<forall>s\<in>set ss. mergeable w2 s"
    using assms(2) mergeable_cong [of w2 w] f0 f1 f2 by simp
  from mapA_addToMerge [OF ac this]
  obtain ts w3 where m: "mapA addToMerge ss w2 = (Inr ts, w3)"
    and l: "list_all2 (\<lambda>s t. \<exists>l r. t = BindThen s (Some l) r) ss ts"
    and f3: "audioStreams w3 = audioStreams w2" "audioContext w3"
      "audioStreamsProto w3 = audioStreamsProto w2"
    by blast
  have "merge ss w = (Inr ts, w3)"
    using c r m assms(1) f0(2) unfolding w1_def
    by (simp add: merge_def andThen_def ok_def)
  then show ?thesis using l f0 f1 f2 f3 by simp
qed



lemma settle_binds:
  assumes "list_all2 (\<lambda>s t. \<exists>l r. t = BindThen s (Some l) r) ss ts" "sourced w"
    and "''__proto__'' \<notin> ids ss"
  shows "\<exists>w'. settleAll ts w = ([], w') \<and> sourced w' \<and>
           dom (map_of (audioStreams w')) = dom (map_of (audioStreams w)) \<union> ids ss \<and>
           mergeDestination w' = mergeDestination w \<and> audioContext w' = audioContext w \<and>
           audioStreamsProto w' = audioStreamsProto w"
  using assms
proof (induction arbitrary: w rule: list_all2_induct)
  case Nil
  then show ?case by (simp add: ids_def)
next
  case (Cons s ss t ts)
  then obtain l r where t: "t = BindThen s (Some l) r" by blast
  have i1: "ids (s # ss) = insert (getSipSessionId (Some s)) (ids ss)" by (simp add: ids_def)
  have np: "getSipSessionId (Some s) \<noteq> ''__proto__''" and nps: "''__proto__'' \<notin> ids ss"
    using Cons.prems(2) unfolding i1 by auto
  define w1 where "w1 = w\<lparr>audioStreams := AList.update (getSipSessionId (Some s))
                   \<lparr>localAudioSource = Some l, remoteAudioSource = r\<rparr> (audioStreams w),
                 effects := effects w @ [SetLocalDescription (getSipSessionId (Some s))]\<rparr>"
  have run: "runTask t w = (Inr (), w1)" unfolding t w1_def using np by (rule runTask_BindThen)
  have s1: "sourced w1" using Cons.prems(1) by (auto simp: sourced_def w1_def update_conv')
  have d1: "dom (map_of (audioStreams w1)) = insert (getSipSessionId (Some s)) (dom (map_of (audioStreams w)))"
    by (simp add: w1_def update_conv')
  have f1: "mergeDestination w1 = mergeDestination w" "audioContext w1 = audioContext w"
    "audioStreamsProto w1 = audioStreamsProto w"
    by (simp_all add: w1_def)
  from Cons.IH [OF s1 nps] obtain w2 where r2: "settleAll ts w1 = ([], w2)" and s2: "sourced w2"
    and d2: "dom (map_of (audioStreams w2)) = dom (map_of (audioStreams w1)) \<union> ids ss"
    and f2: "mergeDestination w2 = mergeDestination w1" "audioContext w2 = audioContext w1"
      "audioStreamsProto w2 = audioStreamsProto w1"
    by blast
  have "settleAll (t # ts) w = ([], w2)" using run r2 by simp
  moreover have "dom (map_of (audioStreams w2)) = dom (map_of (audioStreams w)) \<union> ids (s # ss)"
    unfolding d2 d1 i1 by blast
  ultimately show ?case using s2 f1 f2 by simp
qed

lemma removeEach_present:
  assumes "audioContext w" "sourced w"
    and "\<forall>s\<in>set ss. \<exists>pc. sessionDescriptionHandler s = Some (Some pc) \<and> \<not> closed pc"
    and "ids ss \<subseteq> dom (map_of (audioStreams w))"
    and "distinct (map (\<lambda>s. getSipSessionId (Some s)) ss)"
  shows "\<exists>ps w'. removeEach n i ss w = (Inr ps, w') \<and>
           list_all2 (\<lambda>s p. \<exists>b. p = RemoveThen s b) ss ps \<and>
           dom (map_of (audioStreams w')) = dom (map_of (audioStreams w)) - ids ss \<and>
           mergeDestination w' = mergeDestination w \<and>
           audioStreamsProto w' = audioStreamsProto w"
  using assms
proof (induction ss arbitrary: w i)
  case Nil
  then show ?case by (simp add: ok_def ids_def)
next
  case (Cons s ss)
  let ?sid = "getSipSessionId (Some s)"
  from Cons.prems(3) obtain pc where pc: "sessionDescriptionHandler s = Some (Some pc)" "\<not> closed pc"
    by auto
  from Cons.prems(4) obtain e where e: "map_of (audioStreams w) ?sid = Some e"
    by (auto simp: ids_def)
  with Cons.prems(2) obtain l where l: "localAudioSource e = Some l"
    by (auto simp: sourced_def)
  have "e = \<lparr>localAudioSource = Some l, remoteAudioSource = remoteAudioSource e\<rparr>"
    using l by (cases e) simp
  with e have entry: "map_of (audioStreams w) ?sid =
      Some \<lparr>localAudioSource = Some l, remoteAudioSource = remoteAudioSource e\<rparr>" by simp
  obtain w1 where rem: "removeFromMerge s (i < n - 1) w = (Inr (RemoveThen s (i < n - 1)), w1)"
    and f1: "audioStreams w1 = AList.delete ?sid (audioStreams w)"
      "mergeDestination w1 = mergeDestination w" "audioContext w1"
      "audioStreamsProto w1 = audioStreamsProto w"
    using removeFromMerge_present [OF Cons.prems(1) pc entry, of "i < n - 1"] by blast
  have s1: "sourced w1"
    using Cons.prems(2) by (auto simp: sourced_def f1(1) delete_conv' split: if_splits)
  have d1: "dom (map_of (audioStreams w1)) = dom (map_of (audioStreams w)) - {?sid}"
    by (auto simp: f1(1) delete_conv' split: if_splits)
  have i1: "ids (s # ss) = insert ?sid (ids ss)" by (simp add: ids_def)
  have ns: "?sid \<notin> ids ss" using Cons.prems(5) by (simp add: ids_def)
  have sub: "ids ss \<subseteq> dom (map_of (audioStreams w1))"
    using Cons.prems(4) ns unfolding d1 i1 by blast
  have "\<forall>x\<in>set ss. \<exists>pc. sessionDescriptionHandler x = Some (Some pc) \<and> \<not> closed pc"
    using Cons.prems(3) by simp
  moreover have "distinct (map (\<lambda>s. getSipSessionId (Some s)) ss)" using Cons.prems(5) by simp
  ultimately obtain ps w2 where r2: "removeEach n (Suc i) ss w1 = (Inr ps, w2)"
    and l2: "list_all2 (\<lambda>s p. \<exists>b. p = RemoveThen s b) ss ps"
    and d2: "dom (map_of (audioStreams w2)) = dom (map_of (audioStreams w1)) - ids ss"
    and f2: "mergeDestination w2 = mergeDestination w1" "audioStreamsProto w2 = audioStreamsProto w1"
    using Cons.IH [OF f1(3) s1 _ sub, of "Suc i"] by blast
  have "removeEach n i (s # ss) w = (Inr (RemoveThen s (i < n - 1) # ps), w2)"
    using rem r2 by (simp add: andThen_def ok_def)
  moreover have "dom (map_of (audioStreams w2)) = dom (map_of (audioStreams w)) - ids (s # ss)"
    unfolding d2 d1 i1 by blast
  ultimately show ?case using l2 f1 f2 by simp
qed

lemma toggleAudio_frame:
  "\<exists>w'. toggleAudio s m w = (Inr (), w') \<and> audioStreams w' = audioStreams w \<and>
        mergeDestination w' = mergeDestination w \<and> effects w' = effects w \<and>
        audioStreamsProto w' = audioStreamsProto w"
  by (simp add: toggleAudio_def ok_def foldl_setEnabled split: option.splits)


lemma mergeable_open:
  "mergeable w s \<Longrightarrow> \<exists>pc. sessionDescriptionHandler s = Some (Some pc) \<and> \<not> closed pc"
  by (auto simp: mergeable_def split: option.splits)

lemma hold_returns:
  assumes "sessionHold s = Some Returns"
  shows "\<exists>w'. hold s w = (Inr (), w') \<and> audioStreams w' = audioStreams w \<and>
           mergeDestination w' = mergeDestination w \<and> audioStreamsProto w' = audioStreamsProto w"
proof -
  obtain w1 where m: "toggleAudio s True w = (Inr (), w1)"
    and f1: "audioStreams w1 = audioStreams w" "mergeDestination w1 = mergeDestination w"
      "audioStreamsProto w1 = audioStreamsProto w"
    using toggleAudio_frame by blast
  then show ?thesis using assms
    by (simp add: hold_def mute_def invoke_def andThen_def perform_def)
qed

lemma runTask_RemoveThen:
  assumes "sessionHold s = Some Returns"
  shows "\<exists>w'. runTask (RemoveThen s b) w = (Inr (), w') \<and> audioStreams w' = audioStreams w \<and>
           mergeDestination w' = mergeDestination w \<and> audioStreamsProto w' = audioStreamsProto w"
proof -
  let ?w0 = "w\<lparr>effects := effects w @ [SetLocalDescription (getSipSessionId (Some s))]\<rparr>"
  obtain w1 where h: "hold s ?w0 = (Inr (), w1)"
    and f1: "audioStreams w1 = audioStreams ?w0" "mergeDestination w1 = mergeDestination ?w0"
      "audioStreamsProto w1 = audioStreamsProto ?w0"
    using hold_returns [OF assms] by blast
  then show ?thesis
    by (cases b) (simp_all add: runTask_def andThen_def perform_def ok_def)
qed

lemma settle_removes:
  assumes "list_all2 (\<lambda>s p. \<exists>b. p = RemoveThen s b) ss ps"
    and "\<forall>s\<in>set ss. sessionHold s = Some Returns"
  shows "\<exists>w'. settleAll ps w = ([], w') \<and> audioStreams w' = audioStreams w \<and>
           mergeDestination w' = mergeDestination w \<and> audioStreamsProto w' = audioStreamsProto w"
  using assms
proof (induction arbitrary: w rule: list_all2_induct)
  case Nil
  then show ?case by simp
next
  case (Cons s ss p ps)
  then obtain b where p: "p = RemoveThen s b" by blast
  have "sessionHold s = Some Returns" using Cons.prems by simp
  then obtain w1 where r1: "runTask p w = (Inr (), w1)"
    and f1: "audioStreams w1 = audioStreams w" "mergeDestination w1 = mergeDestination w"
      "audioStreamsProto w1 = audioStreamsProto w"
    unfolding p using runTask_RemoveThen by blast
  have "\<forall>x\<in>set ss. sessionHold x = Some Returns" using Cons.prems by simp
  from Cons.IH [OF this] obtain w2 where r2: "settleAll ps w1 = ([], w2)"
    and f2: "audioStreams w2 = audioStreams w1" "mergeDestination w2 = mergeDestination w1"
      "audioStreamsProto w2 = audioStreamsProto w1"
    by blast
  show ?case using r1 r2 f1 f2 by simp
qed

text \<open>
  Claim C7, as the code has it. In a client with an audio context whose table
  \<^verbatim>\<open>audioStreams\<close> is as \<^verbatim>\<open>configureMedia\<close> left it (no key, prototype untouched), for
  sessions with pairwise different identifiers, none of them \<^verbatim>\<open>__proto__\<close>, that can be
  merged and whose \<^verbatim>\<open>hold\<close> returns: \<^verbatim>\<open>merge(sessions)\<close>, the callbacks of its promises,
  then \<^verbatim>\<open>unmerge(sessions)\<close> and the settling of the removals leave no entry in
  \<^verbatim>\<open>audioStreams\<close>, neither as a key nor as the prototype, and \<^verbatim>\<open>mergeDestination\<close> null,
  and \<^verbatim>\<open>unmerge\<close> resolves to true.
\<close>

theorem merge_then_unmerge_settled:
  assumes "audioContext w" "audioStreams w = []" "audioStreamsProto w = None"
    and "distinct (map (\<lambda>s. getSipSessionId (Some s)) sessions)"
    and "''__proto__'' \<notin> ids sessions"
    and "\<forall>s\<in>set sessions. mergeable w s \<and> sessionHold s = Some Returns"
  shows "\<exists>w'. mergeSettleUnmerge sessions w = (Inr True, w') \<and>
           audioStreams w' = [] \<and> audioStreamsProto w' = None \<and> mergeDestination w' = None"
proof -
  have m: "\<forall>s\<in>set sessions. mergeable w s" using assms(6) by simp
  obtain ts w1 where mg: "merge sessions w = (Inr ts, w1)"
    and l1: "list_all2 (\<lambda>s t. \<exists>l r. t = BindThen s (Some l) r) sessions ts"
    and f1: "audioStreams w1 = audioStreams w" "audioContext w1"
      "audioStreamsProto w1 = audioStreamsProto w"
    using merge_mergeable [OF assms(1) m] by blast
  have "sourced w1" using f1(1) assms(2) by (simp add: sourced_def)
  from settle_binds [OF l1 this assms(5)] obtain w2 where st: "settleAll ts w1 = ([], w2)"
    and s2: "sourced w2"
    and d2: "dom (map_of (audioStreams w2)) = dom (map_of (audioStreams w1)) \<union> ids sessions"
    and f2: "audioContext w2 = audioContext w1" "audioStreamsProto w2 = audioStreamsProto w1"
    by blast
  have d2': "dom (map_of (audioStreams w2)) = ids sessions"
    using d2 f1(1) assms(2) by simp
  have open_pc: "\<forall>s\<in>set sessions. \<exists>pc. sessionDescriptionHandler s = Some (Some pc) \<and> \<not> closed pc"
    using m mergeable_open by blast
  have ac2: "audioContext w2" using f1(2) f2 by simp
  have sub: "ids sessions \<subseteq> dom (map_of (audioStreams w2))" using d2' by simp
  obtain ps w3 where um: "removeEach (length sessions) 0 sessions w2 = (Inr ps, w3)"
    and l3: "list_all2 (\<lambda>s p. \<exists>b. p = RemoveThen s b) sessions ps"
    and d3: "dom (map_of (audioStreams w3)) = dom (map_of (audioStreams w2)) - ids sessions"
    and f3: "audioStreamsProto w3 = audioStreamsProto w2"
    using removeEach_present [OF ac2 s2 open_pc sub assms(4), of "length sessions" 0] by blast
  have hr: "\<forall>s\<in>set sessions. sessionHold s = Some Returns" using assms(6) by simp
  from settle_removes [OF l3 hr] obtain w4 where s4: "settleAll ps w3 = ([], w4)"
    and f4: "audioStreams w4 = audioStreams w3" "audioStreamsProto w4 = audioStreamsProto w3"
    by blast
  have "dom (map_of (audioStreams w4)) = {}" using d3 d2' f4 by simp
  then have e4: "audioStreams w4 = []" by simp
  have p4: "audioStreamsProto w4 = None" using f4(2) f3 f2(2) f1(3) assms(3) by simp
  have "mergeSettleUnmerge sessions w = (Inr True, w4\<lparr>mergeDestination := None\<rparr>)"
    using mg st um s4
    by (simp add: mergeSettleUnmerge_def unmerge_def unmergeSettled_def andThen_def ok_def)
  then show ?thesis using e4 p4 by simp
qed

text \<open>
  Claim C7 as stated fails: when \<^verbatim>\<open>unmerge\<close> follows \<^verbatim>\<open>merge\<close> at once, no promise
  callback of \<^verbatim>\<open>merge\<close> has stored an entry yet, \<^verbatim>\<open>removeFromMerge\<close> throws a
  \<^verbatim>\<open>TypeError\<close> on the first session, and \<^verbatim>\<open>mergeDestination\<close> keeps the node that
  \<^verbatim>\<open>merge\<close> created; the callbacks of \<^verbatim>\<open>merge\<close>, when they run, store an entry for each
  of the two sessions.
\<close>

theorem unmerge_at_once_throws:
  "fst (mergeThenUnmergeAtOnce [firstCall, secondCall] webClient) = Inl TypeError \<and>
   mergeDestination (snd (mergeThenUnmergeAtOnce [firstCall, secondCall] webClient)) = Some 0 \<and>
   map fst (audioStreams (snd (settleAll
       (floating (snd (mergeThenUnmergeAtOnce [firstCall, secondCall] webClient)))
       (snd (mergeThenUnmergeAtOnce [firstCall, secondCall] webClient))))) =
     [''call-5'', ''call-6'']"
  by (simp add: mergeThenUnmergeAtOnce_def merge_def unmerge_def
      addToMerge_def bindStreams_def addAudioStream_def runTask_def
      removeFromMerge_def checkMaxMergeSessions_def MAX_MERGE_SESSIONS_def action_defs
      setAudioStream_def getAudioStream_def destructure_def deleteAudioStream_def
      objectPrototypeNames_def
      firstCall_def secondCall_def plainSession_def plainConnection_def webClient_def
      getSipSessionId_def js_or_def truthy_def getLocalStream_def getRemoteStream_def
      tracksOf_def streamRefOf_def connect_def Let_def)

theorem merge_then_unmerge_settled_witness:
  "audioContext webClient \<and> audioStreams webClient = [] \<and> audioStreamsProto webClient = None \<and>
   ''__proto__'' \<notin> ids [firstCall, secondCall] \<and>
   mergeable webClient firstCall \<and> mergeable webClient secondCall \<and>
   (\<exists>w'. mergeSettleUnmerge [firstCall, secondCall] webClient = (Inr True, w') \<and>
         audioStreams w' = [] \<and> audioStreamsProto w' = None \<and> mergeDestination w' = None)"
proof -
  have a: "audioContext webClient" "audioStreams webClient = []" "audioStreamsProto webClient = None"
    by (simp_all add: webClient_def)
  have d: "distinct (map (\<lambda>s. getSipSessionId (Some s)) [firstCall, secondCall])"
    by (simp add: firstCall_def secondCall_def plainSession_def getSipSessionId_def js_or_def truthy_def)
  have n: "''__proto__'' \<notin> ids [firstCall, secondCall]"
    by (simp add: ids_def firstCall_def secondCall_def plainSession_def getSipSessionId_def
        js_or_def truthy_def)
  have m: "mergeable webClient firstCall" "mergeable webClient secondCall"
    by (simp_all add: mergeable_def firstCall_def secondCall_def plainSession_def
        plainConnection_def closed_def getLocalStream_def webClient_def)
  have h: "\<forall>s\<in>set [firstCall, secondCall]. mergeable webClient s \<and> sessionHold s = Some Returns"
    using m by (simp add: firstCall_def secondCall_def plainSession_def)
  show ?thesis
    using a n m merge_then_unmerge_settled [OF a d n h] by blast
qed


end
